theory Spec2Isabelle
  imports Main "HOL-Library.Char_ord" "HOL-Library.List_Lexorder"
begin

section \<open>Values of the host language\<close>

text \<open>
  A thrown value. Every \<^verbatim>\<open>throw\<close> of the sources throws \<^verbatim>\<open>new Error(message)\<close>
  (or \<^verbatim>\<open>Error(message)\<close>), and what the engine itself throws is a \<^verbatim>\<open>TypeError\<close>, an
  error object too: a thrown value is an error object with its message. The messages of
  the engine's errors are those of V8.
\<close>

datatype thrown = Error string

fun message :: "thrown \<Rightarrow> string" where
  "message (Error m) = m"

text \<open>
  JSON documents: what \<^verbatim>\<open>express.json()\<close> hands to the routes and what a job resolves
  with, as \<^verbatim>\<open>JSON.stringify\<close> sees it. A finite number is held as the text the host
  language prints for it (\<^verbatim>\<open>12\<close>, \<^verbatim>\<open>-0.5\<close>, \<^verbatim>\<open>1e+21\<close>; both zeros print
  \<^verbatim>\<open>0\<close>), which is also the text \<^verbatim>\<open>JSON.stringify\<close> writes; \<open>JNaN\<close> and
  \<open>JInfinity\<close> (of either sign) are the numbers that are not finite. An object is the
  list of its properties in enumeration order.
\<close>

datatype json =
    JNull
  | JBool bool
  | JNum string
  | JNaN
  | JInfinity
  | JStr string
  | JArr "json list"
  | JObj "(string \<times> json) list"

text \<open>
  The value a job's promise resolves with: \<open>None\<close> is \<^verbatim>\<open>undefined\<close> (a job that returns
  nothing). \<open>truthy\<close> is the host language's conversion to a boolean, as \<^verbatim>\<open>||\<close> applies
  it: \<^verbatim>\<open>undefined\<close>, \<^verbatim>\<open>null\<close>, \<^verbatim>\<open>false\<close>, the zeros, \<^verbatim>\<open>NaN\<close> and the empty
  string are falsy.
\<close>

fun truthy :: "json option \<Rightarrow> bool" where
  "truthy None = False"
| "truthy (Some JNull) = False"
| "truthy (Some (JBool b)) = b"
| "truthy (Some (JNum t)) = (t \<noteq> ''0'')"
| "truthy (Some JNaN) = False"
| "truthy (Some JInfinity) = True"
| "truthy (Some (JStr s)) = (s \<noteq> [])"
| "truthy (Some (JArr xs)) = True"
| "truthy (Some (JObj kvs)) = True"

subsection \<open>\<^verbatim>\<open>JSON.stringify\<close>\<close>

definition hex_char :: "nat \<Rightarrow> char" where
  "hex_char d = ''0123456789abcdef'' ! (d mod 16)"

text \<open>
  How a character of a string is written: the quote and the backslash escaped, the
  control characters by their short escapes or as \<^verbatim>\<open>\u00XX\<close>.
\<close>

definition quote_char :: "char \<Rightarrow> string" where
  "quote_char c =
     (let n = (of_char c :: nat) in
      if n = 34 then [CHR 0x5C, CHR 0x22]
      else if n = 92 then [CHR 0x5C, CHR 0x5C]
      else if n = 8 then [CHR 0x5C, CHR ''b'']
      else if n = 9 then [CHR 0x5C, CHR ''t'']
      else if n = 10 then [CHR 0x5C, CHR ''n'']
      else if n = 12 then [CHR 0x5C, CHR ''f'']
      else if n = 13 then [CHR 0x5C, CHR ''r'']
      else if n < 32 then [CHR 0x5C, CHR ''u'', CHR ''0'', CHR ''0'', hex_char (n div 16), hex_char (n mod 16)]
      else [c])"

definition quote_string :: "string \<Rightarrow> string" where
  "quote_string s = [CHR 0x22] @ concat (map quote_char s) @ [CHR 0x22]"

fun join :: "string \<Rightarrow> string list \<Rightarrow> string" where
  "join sep [] = []"
| "join sep [x] = x"
| "join sep (x # y # ys) = x @ sep @ join sep (y # ys)"

fun JSON_stringify :: "json \<Rightarrow> string"
  and stringify_elements :: "json list \<Rightarrow> string list"
  and stringify_properties :: "(string \<times> json) list \<Rightarrow> string list" where
  "JSON_stringify JNull = ''null''"
| "JSON_stringify (JBool b) = (if b then ''true'' else ''false'')"
| "JSON_stringify (JNum t) = t"
| "JSON_stringify JNaN = ''null''"
| "JSON_stringify JInfinity = ''null''"
| "JSON_stringify (JStr s) = quote_string s"
| "JSON_stringify (JArr xs) = ''['' @ join '','' (stringify_elements xs) @ '']''"
| "JSON_stringify (JObj kvs) = ''{'' @ join '','' (stringify_properties kvs) @ ''}''"
| "stringify_elements [] = []"
| "stringify_elements (x # xs) = JSON_stringify x # stringify_elements xs"
| "stringify_properties [] = []"
| "stringify_properties ((k, v) # kvs) =
     (quote_string k @ '':'' @ JSON_stringify v) # stringify_properties kvs"

section \<open>Workflow definitions and their validation\<close>

text \<open>
  A step as \<^verbatim>\<open>yaml.load\<close> yields it. A property the document leaves out is \<open>None\<close>;
  step numbers are the integers. \<open>'d\<close> is the shape of \<^verbatim>\<open>dependsOn\<close>: as written in the
  document, or as \<^verbatim>\<open>parseWorkflowDefinition\<close> leaves it.
\<close>

record 'd WorkflowStep =
  taskType :: "string option"
  stepNumber :: "int option"
  dependsOn :: 'd

record 'd WorkflowDefinition =
  name :: string
  steps :: "'d WorkflowStep list"

text \<open>\<^verbatim>\<open>dependsOn\<close> in the document: absent, one step number, or a list of them.\<close>

datatype RawDependsOn = NoDependsOn | SingleStep int | StepList "int list"

text \<open>
  \<^verbatim>\<open>parseWorkflowDefinition\<close>: a truthy \<^verbatim>\<open>dependsOn\<close> that is not an array becomes a
  one-element array. A falsy one (absent, or the number 0) is left alone, and every later
  reader tests it for truthiness first, so it is \<open>None\<close> here.
\<close>

fun castDependsOn :: "RawDependsOn \<Rightarrow> int list option" where
  "castDependsOn NoDependsOn = None"
| "castDependsOn (SingleStep n) = (if n = 0 then None else Some [n])"
| "castDependsOn (StepList ns) = Some ns"

definition parseWorkflowDefinition ::
  "RawDependsOn WorkflowDefinition \<Rightarrow> (int list option) WorkflowDefinition" where
  "parseWorkflowDefinition workflowDef =
     \<lparr> name = name workflowDef,
       steps = map (\<lambda>step. \<lparr> taskType = taskType step, stepNumber = stepNumber step,
                             dependsOn = castDependsOn (dependsOn step) \<rparr>) (steps workflowDef) \<rparr>"

text \<open>\<^verbatim>\<open>!step.taskType\<close>: the property is absent or the empty string.\<close>

fun missing_taskType :: "string option \<Rightarrow> bool" where
  "missing_taskType None = True"
| "missing_taskType (Some s) = (s = [])"

text \<open>
  \<^verbatim>\<open>step.dependsOn && step.dependsOn.some((stepNumber) => stepNumber >= step.stepNumber)\<close>,
  where \<open>own\<close> is the step's number.
\<close>

fun depends_on_later :: "int list option \<Rightarrow> int \<Rightarrow> bool" where
  "depends_on_later None own = False"
| "depends_on_later (Some ns) own = list_ex (\<lambda>n. n \<ge> own) ns"

text \<open>
  The body of the \<^verbatim>\<open>forEach\<close> callback of \<^verbatim>\<open>validateWorkflowDefinition\<close>.
  \<^verbatim>\<open>!step.stepNumber\<close> holds of an absent number and of 0.
\<close>

definition validateStep :: "(int list option) WorkflowStep \<Rightarrow> thrown + unit" where
  "validateStep step =
     (if missing_taskType (taskType step) then Inl (Error ''Task type is required'')
      else case stepNumber step of
        None \<Rightarrow> Inl (Error ''Step number is required'')
      | Some own \<Rightarrow>
          if own = 0 then Inl (Error ''Step number is required'')
          else if depends_on_later (dependsOn step) own
            then Inl (Error ''Step can not depend on other steps that come after it'')
          else Inr ())"

fun validateSteps :: "(int list option) WorkflowStep list \<Rightarrow> thrown + unit" where
  "validateSteps [] = Inr ()"
| "validateSteps (step # rest) =
     (case validateStep step of Inl e \<Rightarrow> Inl e | Inr _ \<Rightarrow> validateSteps rest)"

text \<open>\<^verbatim>\<open>new Set(stepNumbers).size !== stepNumbers.length\<close>.\<close>

definition validateWorkflowDefinition :: "(int list option) WorkflowDefinition \<Rightarrow> thrown + unit" where
  "validateWorkflowDefinition workflowDefinition =
     (case validateSteps (steps workflowDefinition) of
        Inl e \<Rightarrow> Inl e
      | Inr _ \<Rightarrow>
          (let stepNumbers = map stepNumber (steps workflowDefinition) in
           if length (remdups stepNumbers) \<noteq> length stepNumbers
             then Inl (Error ''Step numbers must be unique'')
           else Inr ()))"

section \<open>Entities and the repositories\<close>

text \<open>
  Primary keys are \<^verbatim>\<open>uuid\<close> strings, generated when an entity is first saved; the
  repositories order them as strings. An entity's key has type \<open>unit\<close> while the entity
  has not been saved (the property is still undefined) and \<open>uuid\<close> afterwards.
\<close>

type_synonym uuid = string

datatype WorkflowStatus = Initial | InProgress | Completed | Failed

datatype TaskStatus = Queued | InProgress | Completed | Failed | Skipped

text \<open>
  What \<^verbatim>\<open>error?.message || error\<close> leaves in \<^verbatim>\<open>result.error\<close>: the message, or
  the thrown value itself when its message is the empty string.
\<close>

datatype ErrorPayload = Message string | ErrorObject thrown

record 'i Result =
  resultId :: 'i
  data :: "string option"
  error :: "ErrorPayload option"

text \<open>The columns of \<^verbatim>\<open>Task\<close>.\<close>

record 'i TaskCols =
  taskId :: 'i
  clientId :: string
  status :: TaskStatus
  workflowId :: uuid
  progress :: "string option"
  taskType :: string
  stepNumber :: int

text \<open>A task with its \<^verbatim>\<open>result\<close> relation (\<open>None\<close>: not loaded, or no result).\<close>

record 'i TaskResult = "'i TaskCols" +
  result :: "uuid Result option"

text \<open>The columns of \<^verbatim>\<open>Workflow\<close>, and a workflow with its eager \<^verbatim>\<open>tasks\<close> relation.\<close>

record 'i WorkflowCols =
  workflowId :: 'i
  clientId :: string
  status :: WorkflowStatus
  finalResult :: "string option"
  input :: string

record Workflow = "uuid WorkflowCols" +
  tasks :: "uuid TaskResult list"

text \<open>
  The \<^verbatim>\<open>Task\<close> entity with all its relations. \<open>'d\<close> is how the members of
  \<^verbatim>\<open>dependencies\<close> are held: loaded tasks for an entity read from the repository,
  positions in the array of sibling tasks while \<^verbatim>\<open>WorkflowFactory\<close> builds a graph
  that is not saved yet.
\<close>

record ('i, 'd) Task = "'i TaskResult" +
  workflow :: "uuid WorkflowCols option"
  dependant :: "uuid TaskCols option"
  dependencies :: "'d list option"

text \<open>
  The rows of the three tables: the columns, and the join columns of the owning sides of
  the relations (\<^verbatim>\<open>Task.workflow\<close>, \<^verbatim>\<open>Task.dependant\<close>, \<^verbatim>\<open>Result.task\<close>).
\<close>

record TaskRow = "uuid TaskCols" +
  workflowFk :: "uuid option"
  dependantFk :: "uuid option"

record ResultRow = "uuid Result" +
  taskFk :: "uuid option"

text \<open>
  \<^verbatim>\<open>AppDataSource\<close>: the three repositories, and how many keys have been generated.
  The generator itself is a parameter \<open>newId\<close> of every operation that inserts: the
  \<open>n\<close>-th key it hands out is \<open>newId n\<close>.
\<close>

record Store =
  workflowRepository :: "uuid WorkflowCols list"
  taskRepository :: "TaskRow list"
  resultRepository :: "ResultRow list"
  generated :: nat

definition empty_store :: Store where
  "empty_store = \<lparr> workflowRepository = [], taskRepository = [], resultRepository = [], generated = 0 \<rparr>"

subsection \<open>Saving\<close>

text \<open>\<^verbatim>\<open>workflowRepository.save\<close> of a new workflow: the row is inserted under a fresh key.\<close>

definition workflowRepository_insert ::
  "(nat \<Rightarrow> uuid) \<Rightarrow> unit WorkflowCols \<Rightarrow> Store \<Rightarrow> uuid WorkflowCols \<times> Store" where
  "workflowRepository_insert newId w s =
     (let saved = \<lparr> workflowId = newId (generated s), clientId = WorkflowCols.clientId w,
                     status = WorkflowCols.status w, finalResult = finalResult w, input = input w \<rparr>
      in (saved, s\<lparr> workflowRepository := workflowRepository s @ [saved],
                    generated := generated s + 1 \<rparr>))"

text \<open>\<^verbatim>\<open>workflowRepository.save\<close> of a loaded workflow: its columns are written back.\<close>

definition workflowRepository_save :: "Workflow \<Rightarrow> Store \<Rightarrow> Store" where
  "workflowRepository_save w s =
     (let cols = \<lparr> workflowId = WorkflowCols.workflowId w, clientId = WorkflowCols.clientId w,
                    status = WorkflowCols.status w, finalResult = finalResult w, input = input w \<rparr>
      in if list_ex (\<lambda>r. WorkflowCols.workflowId r = WorkflowCols.workflowId w) (workflowRepository s)
         then s\<lparr> workflowRepository :=
                   map (\<lambda>r. if WorkflowCols.workflowId r = WorkflowCols.workflowId w then cols else r)
                     (workflowRepository s) \<rparr>
         else s\<lparr> workflowRepository := workflowRepository s @ [cols] \<rparr>)"

text \<open>
  \<^verbatim>\<open>resultRepository.save\<close> of a new result. Nothing in the sources assigns
  \<^verbatim>\<open>result.task\<close>, so the row is inserted with an empty join column.
\<close>

definition resultRepository_save ::
  "(nat \<Rightarrow> uuid) \<Rightarrow> unit Result \<Rightarrow> Store \<Rightarrow> uuid Result \<times> Store" where
  "resultRepository_save newId r s =
     (let saved = \<lparr> resultId = newId (generated s), data = data r, error = error r \<rparr>
      in (saved, s\<lparr> resultRepository := resultRepository s @
                      [\<lparr> resultId = resultId saved, data = data r, error = error r, taskFk = None \<rparr>],
                    generated := generated s + 1 \<rparr>))"

text \<open>Writing the columns of a task into its row; the join columns stay.\<close>

definition write_cols :: "(uuid, 'z) TaskCols_scheme \<Rightarrow> TaskRow \<Rightarrow> TaskRow" where
  "write_cols t r =
     r\<lparr> TaskCols.clientId := TaskCols.clientId t, TaskCols.status := TaskCols.status t,
        TaskCols.workflowId := TaskCols.workflowId t, progress := progress t,
        taskType := taskType t, stepNumber := stepNumber t \<rparr>"

definition new_row :: "(uuid, 'z) TaskCols_scheme \<Rightarrow> uuid option \<Rightarrow> uuid option \<Rightarrow> TaskRow" where
  "new_row t wfk dfk =
     \<lparr> taskId = taskId t, clientId = TaskCols.clientId t, status = TaskCols.status t,
       workflowId = TaskCols.workflowId t, progress = progress t, taskType = taskType t,
       stepNumber = stepNumber t, workflowFk = wfk, dependantFk = dfk \<rparr>"

text \<open>
  \<^verbatim>\<open>taskRepository.save(task.dependant)\<close>: the dependant was loaded with its columns
  only, so only they are written. A task whose key the table does not hold is inserted.
\<close>

definition taskRepository_save_cols :: "uuid TaskCols \<Rightarrow> Store \<Rightarrow> Store" where
  "taskRepository_save_cols t s =
     (if list_ex (\<lambda>r. taskId r = taskId t) (taskRepository s)
      then s\<lparr> taskRepository :=
                map (\<lambda>r. if taskId r = taskId t then write_cols t r else r) (taskRepository s) \<rparr>
      else s\<lparr> taskRepository := taskRepository s @ [new_row t None None] \<rparr>)"

text \<open>
  \<^verbatim>\<open>taskRepository.save(task)\<close> of a loaded task: its columns are written; a relation
  the entity holds sets its join column (\<^verbatim>\<open>workflow\<close>, \<^verbatim>\<open>dependant\<close>), one it does not
  hold leaves the column alone; and \<^verbatim>\<open>task.result\<close>, the inverse side of
  \<^verbatim>\<open>Result.task\<close>, sets the join column of that result's row.
\<close>

definition write_relations :: "(uuid, 'd) Task \<Rightarrow> TaskRow \<Rightarrow> TaskRow" where
  "write_relations t r =
     r\<lparr> workflowFk := (case workflow t of None \<Rightarrow> workflowFk r
                        | Some w \<Rightarrow> Some (WorkflowCols.workflowId w)),
        dependantFk := (case dependant t of None \<Rightarrow> dependantFk r | Some d \<Rightarrow> Some (taskId d)) \<rparr>"

definition link_result :: "(uuid, 'd) Task \<Rightarrow> ResultRow list \<Rightarrow> ResultRow list" where
  "link_result t rows =
     (case result t of
        None \<Rightarrow> rows
      | Some res \<Rightarrow> map (\<lambda>r. if resultId r = resultId res then r\<lparr> taskFk := Some (taskId t) \<rparr> else r) rows)"

definition taskRepository_save :: "(uuid, 'd) Task \<Rightarrow> Store \<Rightarrow> Store" where
  "taskRepository_save t s =
     (let rows =
        (if list_ex (\<lambda>r. taskId r = taskId t) (taskRepository s)
         then map (\<lambda>r. if taskId r = taskId t then write_relations t (write_cols t r) else r)
                (taskRepository s)
         else taskRepository s @
                [new_row t (map_option WorkflowCols.workflowId (workflow t))
                   (map_option taskId (dependant t))])
      in s\<lparr> taskRepository := rows, resultRepository := link_result t (resultRepository s) \<rparr>)"

section \<open>\<^verbatim>\<open>WorkflowFactory\<close>\<close>

definition createWorkflow :: "string \<Rightarrow> json \<Rightarrow> unit WorkflowCols" where
  "createWorkflow cid inp =
     \<lparr> workflowId = (), clientId = cid, status = Initial, finalResult = None,
       input = JSON_stringify inp \<rparr>"

text \<open>
  \<^verbatim>\<open>createTasks\<close> runs after \<^verbatim>\<open>validateWorkflowDefinition\<close>, so every step it reads has
  its task type and its step number.
\<close>

definition createTasks ::
  "(int list option) WorkflowDefinition \<Rightarrow> uuid WorkflowCols \<Rightarrow> (unit, nat) Task list" where
  "createTasks workflowDef workflow0 =
     map (\<lambda>step.
        \<lparr> taskId = (), clientId = WorkflowCols.clientId workflow0, status = Queued,
          workflowId = WorkflowCols.workflowId workflow0, progress = None,
          taskType = the (WorkflowStep.taskType step),
          stepNumber = the (WorkflowStep.stepNumber step),
          result = None, workflow = Some workflow0, dependant = None, dependencies = None \<rparr>)
       (steps workflowDef)"

text \<open>\<^verbatim>\<open>tasks.find\<close>, returning the position of the task found.\<close>

fun findIndex :: "('a \<Rightarrow> bool) \<Rightarrow> 'a list \<Rightarrow> nat option" where
  "findIndex P [] = None"
| "findIndex P (x # xs) = (if P x then Some 0 else map_option Suc (findIndex P xs))"

text \<open>
  \<^verbatim>\<open>populateDependencies\<close>: for every step with a \<^verbatim>\<open>dependsOn\<close>, the first task with
  the step's number gets as \<^verbatim>\<open>dependencies\<close> the tasks whose numbers the step lists.
  The tasks are not saved yet, so a dependency is held as its position in the array.
  Assigning to a task that \<^verbatim>\<open>find\<close> did not find throws.
\<close>

fun populate_steps ::
  "(int list option) WorkflowStep list \<Rightarrow> (unit, nat) Task list \<Rightarrow> thrown + (unit, nat) Task list" where
  "populate_steps [] ts = Inr ts"
| "populate_steps (step # rest) ts =
     (case dependsOn step of
        None \<Rightarrow> populate_steps rest ts
      | Some ds \<Rightarrow>
          (case findIndex (\<lambda>t. stepNumber t = the (WorkflowStep.stepNumber step)) ts of
             None \<Rightarrow> Inl (Error ''Cannot set properties of undefined (setting 'dependencies')'')
           | Some i \<Rightarrow>
               populate_steps rest
                 (ts[i := (ts ! i)\<lparr> dependencies :=
                      Some (filter (\<lambda>j. stepNumber (ts ! j) \<in> set ds) [0..<length ts]) \<rparr>])))"

definition populateDependencies ::
  "(int list option) WorkflowDefinition \<Rightarrow> (unit, nat) Task list \<Rightarrow> thrown + (unit, nat) Task list" where
  "populateDependencies workflowDef ts = populate_steps (steps workflowDef) ts"

text \<open>
  \<^verbatim>\<open>taskRepository.save(tasks)\<close> of the new tasks: one row each, in the array's order,
  under fresh keys. \<^verbatim>\<open>dependencies\<close> is the inverse side of \<^verbatim>\<open>dependant\<close>: saving a
  task with dependencies sets the \<^verbatim>\<open>dependant\<close> join column of each of them to that
  task. Where two tasks hold the same dependency, the later task of the array wins.
\<close>

definition consumer_of :: "('i, nat) Task list \<Rightarrow> nat \<Rightarrow> nat option" where
  "consumer_of ts j =
     (case filter (\<lambda>i. case dependencies (ts ! i) of None \<Rightarrow> False | Some ds \<Rightarrow> j \<in> set ds)
             [0..<length ts] of
        [] \<Rightarrow> None
      | i # others \<Rightarrow> Some (last (i # others)))"

definition taskRepository_save_all :: "(nat \<Rightarrow> uuid) \<Rightarrow> (unit, nat) Task list \<Rightarrow> Store \<Rightarrow> Store" where
  "taskRepository_save_all newId ts s =
     (let key = (\<lambda>i. newId (generated s + i));
          row = (\<lambda>i.
            \<lparr> taskId = key i, clientId = TaskCols.clientId (ts ! i),
              status = TaskCols.status (ts ! i), workflowId = TaskCols.workflowId (ts ! i),
              progress = progress (ts ! i), taskType = taskType (ts ! i),
              stepNumber = stepNumber (ts ! i),
              workflowFk = map_option WorkflowCols.workflowId (workflow (ts ! i)),
              dependantFk =
                (case consumer_of ts i of
                   Some c \<Rightarrow> Some (key c)
                 | None \<Rightarrow> map_option taskId (dependant (ts ! i))) \<rparr>)
      in s\<lparr> taskRepository := taskRepository s @ map row [0..<length ts],
            generated := generated s + length ts \<rparr>)"

text \<open>
  \<^verbatim>\<open>createWorkflowFromYAML\<close>, from the document \<^verbatim>\<open>yaml.load\<close> read. It returns the saved
  workflow or what was thrown, and the repositories as it leaves them.
\<close>

definition createWorkflowFromYAML ::
  "(nat \<Rightarrow> uuid) \<Rightarrow> RawDependsOn WorkflowDefinition \<Rightarrow> string \<Rightarrow> json \<Rightarrow> Store
     \<Rightarrow> (thrown + uuid WorkflowCols) \<times> Store" where
  "createWorkflowFromYAML newId document cid inp s =
     (let workflowDefinition = parseWorkflowDefinition document in
      case validateWorkflowDefinition workflowDefinition of
        Inl e \<Rightarrow> (Inl e, s)
      | Inr _ \<Rightarrow>
          (let (savedWorkflow, s1) = workflowRepository_insert newId (createWorkflow cid inp) s in
           case populateDependencies workflowDefinition (createTasks workflowDefinition savedWorkflow) of
             Inl e \<Rightarrow> (Inl e, s1)
           | Inr ts \<Rightarrow> (Inr savedWorkflow, taskRepository_save_all newId ts s1)))"

section \<open>Jobs\<close>

text \<open>
  \<^verbatim>\<open>JobContext\<close>: the workflow the task was loaded with (\<open>None\<close>: the task has none,
  the property is \<^verbatim>\<open>null\<close>), and the outputs of its dependencies. An output is \<^verbatim>\<open>dependency.result?.data\<close>, \<open>None\<close> where the dependency
  has no result or the result has no data.
\<close>

record JobContext =
  workflow :: "uuid WorkflowCols option"
  dependenciesOutputs :: "string option list"

text \<open>
  The getter \<^verbatim>\<open>JobContext.input\<close>, over \<^verbatim>\<open>JSON.parse\<close>: \<^verbatim>\<open>null\<close> for an empty input,
  the parsed document otherwise.
\<close>

definition JobContext_input :: "(string \<Rightarrow> thrown + json) \<Rightarrow> JobContext \<Rightarrow> thrown + json" where
  "JobContext_input JSON_parse ctx =
     (case JobContext.workflow ctx of
        None \<Rightarrow> Inl (Error ''Cannot read properties of null (reading 'input')'')
      | Some w \<Rightarrow> if input w = [] then Inr JNull else JSON_parse (input w))"

text \<open>
  A job is known by its interface only: run on a task and a context, its promise resolves
  with a value (\<open>None\<close>: with nothing) or rejects with what was thrown. It may read the
  repositories, as \<^verbatim>\<open>ReportGenerationJob\<close> does.
\<close>

datatype JobOutcome = Resolves "json option" | Rejects thrown

type_synonym Job = "Store \<Rightarrow> (uuid, uuid TaskResult) Task \<Rightarrow> JobContext \<Rightarrow> JobOutcome"

text \<open>
  \<^verbatim>\<open>JobFactory.jobMap\<close> has four keys of its own; the job behind each is a parameter.
\<close>

record JobMap =
  analysis :: Job
  notification :: Job
  polygonArea :: Job
  reportGeneration :: Job

text \<open>
  \<^verbatim>\<open>jobMap[taskType]\<close> also finds what the object inherits from
  \<^verbatim>\<open>Object.prototype\<close>, and \<^verbatim>\<open>JobFactory.get\<close> calls what it found, without a
  receiver and without arguments. Three of the inherited functions return then, with a
  value that is no job (an empty object, a string, \<^verbatim>\<open>false\<close>): calling its
  \<^verbatim>\<open>run\<close> throws.
\<close>

definition not_a_job :: Job where
  "not_a_job = (\<lambda>s t ctx. Rejects (Error ''job.run is not a function''))"

text \<open>
  The other inherited functions throw when called so, and \<^verbatim>\<open>__proto__\<close> is an object,
  not a function. Any other task type is not found.
\<close>

definition JobFactory_get :: "JobMap \<Rightarrow> string \<Rightarrow> thrown + Job" where
  "JobFactory_get jobMap ty =
     (if ty = ''analysis'' then Inr (analysis jobMap)
      else if ty = ''notification'' then Inr (notification jobMap)
      else if ty = ''polygonArea'' then Inr (polygonArea jobMap)
      else if ty = ''reportGeneration'' then Inr (reportGeneration jobMap)
      else if ty \<in> set [''constructor'', ''toString'', ''isPrototypeOf''] then Inr not_a_job
      else if ty = ''__proto__'' then Inl (Error ''factoryMethod is not a function'')
      else if ty = ''toLocaleString''
        then Inl (Error ''Object.prototype.toLocaleString called on null or undefined'')
      else if ty \<in> set [''valueOf'', ''hasOwnProperty'', ''propertyIsEnumerable'',
                          ''__defineGetter__'', ''__defineSetter__'',
                          ''__lookupGetter__'', ''__lookupSetter__'']
        then Inl (Error ''Cannot convert undefined or null to object'')
      else Inl (Error (''No job found for task type: '' @ ty)))"

section \<open>\<^verbatim>\<open>WorkflowReportGenerator\<close>\<close>

fun TaskStatus_value :: "TaskStatus \<Rightarrow> string" where
  "TaskStatus_value Queued = ''queued''"
| "TaskStatus_value TaskStatus.InProgress = ''in_progress''"
| "TaskStatus_value TaskStatus.Completed = ''completed''"
| "TaskStatus_value TaskStatus.Failed = ''failed''"
| "TaskStatus_value Skipped = ''skipped''"

fun WorkflowStatus_value :: "WorkflowStatus \<Rightarrow> string" where
  "WorkflowStatus_value Initial = ''initial''"
| "WorkflowStatus_value WorkflowStatus.InProgress = ''in_progress''"
| "WorkflowStatus_value WorkflowStatus.Completed = ''completed''"
| "WorkflowStatus_value WorkflowStatus.Failed = ''failed''"

text \<open>An error payload inside a template string.\<close>

fun payload_text :: "ErrorPayload \<Rightarrow> string" where
  "payload_text (Message m) = m"
| "payload_text (ErrorObject (Error m)) = (if m = [] then ''Error'' else ''Error: '' @ m)"

text \<open>\<^verbatim>\<open>value || 'none'\<close> on a text that may be absent.\<close>

fun or_none :: "string option \<Rightarrow> string" where
  "or_none None = ''none''"
| "or_none (Some v) = (if v = [] then ''none'' else v)"

definition stringifyTask :: "(uuid, 'z) TaskResult_scheme \<Rightarrow> string" where
  "stringifyTask t =
     ''Task ID: '' @ taskId t @ '', '' @
     ''Type: '' @ taskType t @ '', '' @
     ''Status: '' @ TaskStatus_value (TaskCols.status t) @ '', '' @
     ''Result: '' @ or_none (case result t of None \<Rightarrow> None | Some r \<Rightarrow> data r) @ '', '' @
     ''Error: '' @ or_none (case result t of None \<Rightarrow> None
                            | Some r \<Rightarrow> map_option payload_text (error r))"

definition generateAggregatedReport :: "Workflow \<Rightarrow> string" where
  "generateAggregatedReport w =
     ''Workflow report:'' @ [CHR 0x0A] @
     ''Workflow ID: '' @ WorkflowCols.workflowId w @ ''.'' @ [CHR 0x0A] @
     ''Status: '' @ WorkflowStatus_value (WorkflowCols.status w) @ ''.'' @ [CHR 0x0A] @
     ''Tasks:'' @ [CHR 0x0A] @
     join [CHR 0x0A] (map (\<lambda>t. [CHR 0x09] @ stringifyTask t) (tasks w))"

section \<open>\<^verbatim>\<open>TaskRunner\<close>\<close>

text \<open>\<^verbatim>\<open>getJobContext\<close>.\<close>

definition getJobContext :: "('i, ('j, 'z) TaskResult_scheme) Task \<Rightarrow> JobContext" where
  "getJobContext t =
     \<lparr> workflow = Task.workflow t,
       dependenciesOutputs =
         (case dependencies t of
            None \<Rightarrow> []
          | Some deps \<Rightarrow>
              map (\<lambda>dependency. case result dependency of None \<Rightarrow> None | Some r \<Rightarrow> data r) deps) \<rparr>"

text \<open>\<^verbatim>\<open>taskResult || {}\<close>.\<close>

definition or_empty_object :: "json option \<Rightarrow> json" where
  "or_empty_object taskResult =
     (case taskResult of
        None \<Rightarrow> JObj []
      | Some v \<Rightarrow> if truthy (Some v) then v else JObj [])"

text \<open>\<^verbatim>\<open>error?.message || error\<close>.\<close>

definition message_or_error :: "thrown \<Rightarrow> ErrorPayload" where
  "message_or_error e = (if message e \<noteq> [] then Message (message e) else ErrorObject e)"

text \<open>
  \<^verbatim>\<open>workflowRepository.findOne\<close> by key, with the \<^verbatim>\<open>tasks\<close> relation: the tasks whose
  \<^verbatim>\<open>workflow\<close> join column holds the key, without their own relations.
\<close>

definition workflowRepository_findOne :: "uuid \<Rightarrow> Store \<Rightarrow> Workflow option" where
  "workflowRepository_findOne wid s =
     (case find (\<lambda>w. WorkflowCols.workflowId w = wid) (workflowRepository s) of
        None \<Rightarrow> None
      | Some w \<Rightarrow>
          Some \<lparr> workflowId = WorkflowCols.workflowId w, clientId = WorkflowCols.clientId w,
                 status = WorkflowCols.status w, finalResult = finalResult w, input = input w,
                 tasks = map (\<lambda>r. \<lparr> taskId = taskId r, clientId = TaskCols.clientId r,
                                     status = TaskCols.status r, workflowId = TaskCols.workflowId r,
                                     progress = progress r, taskType = taskType r,
                                     stepNumber = stepNumber r, result = None \<rparr>)
                           (filter (\<lambda>r. workflowFk r = Some wid) (taskRepository s)) \<rparr>)"

text \<open>The status of a workflow, from the statuses of its tasks (lines 87 to 96 of the runner).\<close>

definition aggregate_status :: "TaskStatus list \<Rightarrow> WorkflowStatus" where
  "aggregate_status sts =
     (let allCompleted = list_all (\<lambda>st. st = TaskStatus.Completed) sts;
          anyFailed = list_ex (\<lambda>st. st = TaskStatus.Failed) sts
      in if anyFailed then WorkflowStatus.Failed
         else if allCompleted then WorkflowStatus.Completed
         else WorkflowStatus.InProgress)"

text \<open>
  The part of \<^verbatim>\<open>run\<close> after the \<^verbatim>\<open>try\<close> statement: the workflow is read again with
  its tasks, its status and report are recomputed, and it is saved.
\<close>

definition update_workflow :: "(uuid, 'd) Task \<Rightarrow> Store \<Rightarrow> thrown option \<times> Store" where
  "update_workflow t s =
     (case Task.workflow t of
        None \<Rightarrow> (Some (Error ''Cannot read properties of null (reading 'workflowId')''), s)
      | Some w \<Rightarrow>
          (case workflowRepository_findOne (WorkflowCols.workflowId w) s of
             None \<Rightarrow> (None, s)
           | Some currentWorkflow \<Rightarrow>
               (let w1 = currentWorkflow\<lparr> WorkflowCols.status :=
                            aggregate_status (map TaskCols.status (tasks currentWorkflow)) \<rparr>;
                    w2 = w1\<lparr> finalResult := Some (generateAggregatedReport w1) \<rparr>
                in (None, workflowRepository_save w2 s))))"

text \<open>
  \<^verbatim>\<open>TaskRunner.run\<close>. It returns what it threw, if anything, the task entity as it
  leaves it, and the repositories. \<^verbatim>\<open>task.result\<close> and \<^verbatim>\<open>result\<close> are one object, so
  the task holds the result with the key that saving gave it.
\<close>

definition run ::
  "(nat \<Rightarrow> uuid) \<Rightarrow> JobMap \<Rightarrow> (uuid, uuid TaskResult) Task \<Rightarrow> Store
     \<Rightarrow> thrown option \<times> (uuid, uuid TaskResult) Task \<times> Store" where
  "run newId jobMap task0 s0 =
     (let task1 = task0\<lparr> TaskCols.status := TaskStatus.InProgress, progress := Some ''starting job...'' \<rparr>;
          s1 = taskRepository_save task1 s0
      in case JobFactory_get jobMap (taskType task1) of
           Inl e \<Rightarrow> (Some e, task1, s1)
         | Inr job \<Rightarrow>
             (let res = \<lparr> resultId = (), data = None, error = None \<rparr> in
              case job s1 task1 (getJobContext task1) of
                Resolves taskResult \<Rightarrow>
                  (let res1 = res\<lparr> data := Some (JSON_stringify (or_empty_object taskResult)) \<rparr>;
                       (saved, s2) = resultRepository_save newId res1 s1;
                       task2 = task1\<lparr> result := Some saved, TaskCols.status := TaskStatus.Completed,
                                      progress := None \<rparr>;
                       s3 = taskRepository_save task2 s2;
                       s4 = (case dependant task2 of None \<Rightarrow> s3
                             | Some d \<Rightarrow> taskRepository_save_cols d s3);
                       (e, s5) = update_workflow task2 s4
                   in (e, task2, s5))
              | Rejects err \<Rightarrow>
                  (let task2 = task1\<lparr> TaskCols.status := TaskStatus.Failed, progress := None,
                                      dependant := map_option (\<lambda>d. d\<lparr> TaskCols.status := Skipped \<rparr>)
                                                     (dependant task1) \<rparr>;
                       res1 = res\<lparr> error := Some (message_or_error err) \<rparr>;
                       (saved, s2) = resultRepository_save newId res1 s1;
                       s3 = taskRepository_save task2 s2;
                       s4 = (case dependant task2 of None \<Rightarrow> s3
                             | Some d \<Rightarrow> taskRepository_save_cols d s3)
                   in (Some err, task2, s4))))"

section \<open>\<^verbatim>\<open>taskWorker\<close>\<close>

text \<open>The order of the query: by \<^verbatim>\<open>workflowId\<close>, then by \<^verbatim>\<open>stepNumber\<close>, both ascending.\<close>

definition task_before :: "TaskRow \<Rightarrow> TaskRow \<Rightarrow> bool" where
  "task_before a b =
     (TaskCols.workflowId a < TaskCols.workflowId b
      \<or> (TaskCols.workflowId a = TaskCols.workflowId b \<and> stepNumber a < stepNumber b))"

fun first_in_order :: "TaskRow \<Rightarrow> TaskRow list \<Rightarrow> TaskRow" where
  "first_in_order best [] = best"
| "first_in_order best (r # rs) = first_in_order (if task_before r best then r else best) rs"

text \<open>A row as an entity, with the relations the worker asks for: \<^verbatim>\<open>workflow\<close> and \<^verbatim>\<open>dependant\<close>.\<close>

definition cols_of :: "TaskRow \<Rightarrow> uuid TaskCols" where
  "cols_of r =
     \<lparr> taskId = taskId r, clientId = TaskCols.clientId r, status = TaskCols.status r,
       workflowId = TaskCols.workflowId r, progress = progress r, taskType = taskType r,
       stepNumber = stepNumber r \<rparr>"

definition load_task :: "Store \<Rightarrow> TaskRow \<Rightarrow> (uuid, uuid TaskResult) Task" where
  "load_task s r =
     \<lparr> taskId = taskId r, clientId = TaskCols.clientId r, status = TaskCols.status r,
       workflowId = TaskCols.workflowId r, progress = progress r, taskType = taskType r,
       stepNumber = stepNumber r, result = None,
       Task.workflow = (case workflowFk r of None \<Rightarrow> None
                   | Some k \<Rightarrow> find (\<lambda>w. WorkflowCols.workflowId w = k) (workflowRepository s)),
       dependant = (case dependantFk r of None \<Rightarrow> None
                    | Some k \<Rightarrow> map_option cols_of (find (\<lambda>d. taskId d = k) (taskRepository s))),
       dependencies = None \<rparr>"

text \<open>
  \<^verbatim>\<open>taskRepository.findOne\<close> of the worker: the first queued task in the order above
  (the earliest row among equals).
\<close>

definition next_queued :: "Store \<Rightarrow> TaskRow option" where
  "next_queued s =
     (case filter (\<lambda>r. TaskCols.status r = Queued) (taskRepository s) of
        [] \<Rightarrow> None
      | r # rs \<Rightarrow> Some (first_in_order r rs))"

definition taskRepository_findOne_queued :: "Store \<Rightarrow> (uuid, uuid TaskResult) Task option" where
  "taskRepository_findOne_queued s = map_option (load_task s) (next_queued s)"

text \<open>
  One turn of the loop of \<^verbatim>\<open>taskWorker\<close>: query, run the task found, log what it threw,
  sleep. The loop itself never ends; \<open>taskWorker n\<close> is its first \<open>n\<close> turns.
\<close>

definition taskWorker_turn :: "(nat \<Rightarrow> uuid) \<Rightarrow> JobMap \<Rightarrow> Store \<Rightarrow> Store" where
  "taskWorker_turn newId jobMap s =
     (case taskRepository_findOne_queued s of
        None \<Rightarrow> s
      | Some t \<Rightarrow> snd (snd (run newId jobMap t s)))"

fun taskWorker :: "nat \<Rightarrow> (nat \<Rightarrow> uuid) \<Rightarrow> JobMap \<Rightarrow> Store \<Rightarrow> Store" where
  "taskWorker 0 newId jobMap s = s"
| "taskWorker (Suc n) newId jobMap s = taskWorker n newId jobMap (taskWorker_turn newId jobMap s)"

text \<open>
  The states of the repositories the system reaches: it starts empty, a request creates
  a workflow from a document, and the worker takes a turn.
\<close>

inductive reachable :: "(nat \<Rightarrow> uuid) \<Rightarrow> JobMap \<Rightarrow> Store \<Rightarrow> bool"
  for newId :: "nat \<Rightarrow> uuid" and jobMap :: JobMap where
  start: "reachable newId jobMap empty_store"
| create: "reachable newId jobMap s \<Longrightarrow>
     reachable newId jobMap (snd (createWorkflowFromYAML newId document cid inp s))"
| turn: "reachable newId jobMap s \<Longrightarrow> reachable newId jobMap (taskWorker_turn newId jobMap s)"

section \<open>The status route\<close>

text \<open>The getter \<^verbatim>\<open>Task.isCompleted\<close>.\<close>

definition isCompleted :: "('i, 'z) TaskCols_scheme \<Rightarrow> bool" where
  "isCompleted t = (TaskCols.status t \<in> set [TaskStatus.Completed, TaskStatus.Failed, Skipped])"

datatype HttpStatus = Ok | Accepted | BadRequest | NotFound | InternalServerError

record StatusBody =
  workflowId :: uuid
  status :: WorkflowStatus
  completedTasks :: nat
  totalTasks :: nat

datatype Body = Status StatusBody | MessageBody string

text \<open>The handler of \<^verbatim>\<open>GET /:id/status\<close>, on the \<^verbatim>\<open>id\<close> of the request.\<close>

definition get_status :: "Store \<Rightarrow> uuid \<Rightarrow> HttpStatus \<times> Body" where
  "get_status s wid =
     (case workflowRepository_findOne wid s of
        None \<Rightarrow> (NotFound, MessageBody ''Workflow not found'')
      | Some w \<Rightarrow>
          (Ok, Status \<lparr> workflowId = WorkflowCols.workflowId w, status = WorkflowCols.status w,
                         completedTasks = length (filter isCompleted (tasks w)),
                         totalTasks = length (tasks w) \<rparr>))"

section \<open>Auxiliary notions for the properties\<close>

text \<open>A parsed definition with a step whose step number is absent or 0.\<close>

definition has_missing_stepNumber :: "(int list option) WorkflowDefinition \<Rightarrow> bool" where
  "has_missing_stepNumber d =
     list_ex (\<lambda>step. WorkflowStep.stepNumber step = None \<or> WorkflowStep.stepNumber step = Some 0)
       (steps d)"

text \<open>
  The step numbers a step refers to, as its document writes them, and a document with a
  step that refers to a step number not below its own.
\<close>

fun referenced_steps :: "RawDependsOn \<Rightarrow> int list" where
  "referenced_steps NoDependsOn = []"
| "referenced_steps (SingleStep n) = [n]"
| "referenced_steps (StepList ns) = ns"

definition refers_to_later_step :: "RawDependsOn WorkflowDefinition \<Rightarrow> bool" where
  "refers_to_later_step document =
     list_ex (\<lambda>step. case WorkflowStep.stepNumber step of
                       None \<Rightarrow> False
                     | Some own \<Rightarrow> list_ex (\<lambda>n. own \<le> n) (referenced_steps (dependsOn step)))
       (steps document)"

text \<open>A document whose only step has the number -1 and depends on step 0.\<close>

definition bare_zero_document :: "RawDependsOn WorkflowDefinition" where
  "bare_zero_document =
     \<lparr> name = ''example'',
       steps = [\<lparr> WorkflowStep.taskType = Some ''analysis'', WorkflowStep.stepNumber = Some (- 1),
                  dependsOn = SingleStep 0 \<rparr>] \<rparr>"

text \<open>
  A document that obeys the four rules: every step has a task type that is not empty and
  a positive step number, refers only to step numbers below its own, and no step number
  occurs twice.
\<close>

definition valid_definition :: "RawDependsOn WorkflowDefinition \<Rightarrow> bool" where
  "valid_definition document =
     (list_all (\<lambda>step.
         (case WorkflowStep.taskType step of None \<Rightarrow> False | Some ty \<Rightarrow> ty \<noteq> [])
         \<and> (case WorkflowStep.stepNumber step of
               None \<Rightarrow> False
             | Some own \<Rightarrow> 0 < own \<and> list_all (\<lambda>n. n < own) (referenced_steps (dependsOn step))))
        (steps document)
      \<and> distinct (map WorkflowStep.stepNumber (steps document)))"

text \<open>Keys for the examples: the \<open>n\<close>-th key is \<open>n + 1\<close> letters long.\<close>

fun example_key :: "nat \<Rightarrow> uuid" where
  "example_key 0 = ''k''"
| "example_key (Suc n) = CHR ''k'' # example_key n"

text \<open>New tasks with their \<^verbatim>\<open>dependencies\<close> forgotten.\<close>

definition erase :: "('i, nat) Task list \<Rightarrow> ('i, nat) Task list" where
  "erase ts = map (\<lambda>t. t\<lparr> dependencies := None \<rparr>) ts"

text \<open>The workflow \<^verbatim>\<open>createWorkflowFromYAML\<close> saves first.\<close>

definition saved_workflow :: "(nat \<Rightarrow> uuid) \<Rightarrow> string \<Rightarrow> json \<Rightarrow> Store \<Rightarrow> uuid WorkflowCols" where
  "saved_workflow newId cid inp s =
     \<lparr> WorkflowCols.workflowId = newId (generated s), WorkflowCols.clientId = cid,
       WorkflowCols.status = Initial, finalResult = None,
       input = JSON_stringify inp \<rparr>"

text \<open>
  The two-step definition of the spec's examples, with task types of the registry: step 2
  depends on step 1.
\<close>

definition two_step_document :: "RawDependsOn WorkflowDefinition" where
  "two_step_document =
     \<lparr> name = ''example'',
       steps = [\<lparr> WorkflowStep.taskType = Some ''analysis'', WorkflowStep.stepNumber = Some 1,
                  dependsOn = NoDependsOn \<rparr>,
                \<lparr> WorkflowStep.taskType = Some ''notification'', WorkflowStep.stepNumber = Some 2,
                  dependsOn = SingleStep 1 \<rparr>] \<rparr>"

text \<open>Jobs for the examples: one that resolves with a given value, one that rejects.\<close>

definition resolves_with :: "json option \<Rightarrow> Job" where
  "resolves_with v = (\<lambda>s t ctx. Resolves v)"

definition rejects_with :: "string \<Rightarrow> Job" where
  "rejects_with m = (\<lambda>s t ctx. Rejects (Error m))"

definition example_jobs :: "Job \<Rightarrow> Job \<Rightarrow> JobMap" where
  "example_jobs a n =
     \<lparr> analysis = a, notification = n, polygonArea = resolves_with None,
       reportGeneration = resolves_with None \<rparr>"

text \<open>The repositories once the two-step definition has been created in the empty ones.\<close>

definition two_step_store :: Store where
  "two_step_store =
     snd (createWorkflowFromYAML example_key two_step_document ''client'' (JObj []) empty_store)"

text \<open>A definition whose only step has a task type the registry does not hold.\<close>

definition unknown_type_document :: "RawDependsOn WorkflowDefinition" where
  "unknown_type_document =
     \<lparr> name = ''example'',
       steps = [\<lparr> WorkflowStep.taskType = Some ''unknown'', WorkflowStep.stepNumber = Some 1,
                  dependsOn = NoDependsOn \<rparr>] \<rparr>"

definition unknown_type_store :: Store where
  "unknown_type_store =
     snd (createWorkflowFromYAML example_key unknown_type_document ''client'' (JObj []) empty_store)"



text \<open>The same repositories after a turn of the worker in which the job of step 1 rejects.\<close>

definition failed_step_store :: Store where
  "failed_step_store =
     taskWorker_turn example_key (example_jobs (rejects_with ''boom'') (resolves_with None))
       two_step_store"

text \<open>
  What a row of the tasks says about the graph: its key, its workflow, its step number and
  its consumer. The runner never writes any of these.
\<close>

definition skeleton :: "TaskRow \<Rightarrow> uuid \<times> uuid \<times> int \<times> uuid option" where
  "skeleton r = (taskId r, TaskCols.workflowId r, stepNumber r, dependantFk r)"

definition task_skeleton :: "Store \<Rightarrow> (uuid \<times> uuid \<times> int \<times> uuid option) list" where
  "task_skeleton s = map skeleton (taskRepository s)"

text \<open>
  The invariant of the reachable states: the keys of the tasks are pairwise different keys
  handed out so far, every consumer key is one too, and a task whose consumer is in the
  table belongs to the consumer's workflow and has a smaller step number.
\<close>

definition graph_ok :: "(nat \<Rightarrow> uuid) \<Rightarrow> Store \<Rightarrow> bool" where
  "graph_ok newId s =
     (distinct (map fst (task_skeleton s))
      \<and> (\<forall>(i, w, n, f) \<in> set (task_skeleton s).
            i \<in> newId ` {..<generated s} \<and> (\<forall>k. f = Some k \<longrightarrow> k \<in> newId ` {..<generated s}))
      \<and> (\<forall>(i, w, n, f) \<in> set (task_skeleton s). \<forall>(i', w', n', f') \<in> set (task_skeleton s).
            f = Some i' \<longrightarrow> w = w' \<and> n < n'))"

text \<open>
  An entity agrees with the table when the table holds its key, and the rows with its key
  have its workflow, its step number and, if it holds a consumer, that consumer's key.
\<close>

definition agrees ::
  "(uuid, 'z) TaskCols_scheme \<Rightarrow> uuid option \<Rightarrow> (uuid \<times> uuid \<times> int \<times> uuid option) list \<Rightarrow> bool" where
  "agrees t consumer sk =
     ((\<exists>e \<in> set sk. fst e = taskId t)
      \<and> (\<forall>(i, w, n, f) \<in> set sk. i = taskId t \<longrightarrow>
            w = TaskCols.workflowId t \<and> n = stepNumber t
            \<and> (\<forall>k. consumer = Some k \<longrightarrow> f = Some k)))"

text \<open>
  New tasks whose dependencies are positions of the array, each holding a task with a
  smaller step number.
\<close>

definition deps_ok :: "('i, nat) Task list \<Rightarrow> bool" where
  "deps_ok ts =
     (\<forall>j < length ts. \<forall>ds. dependencies (ts ! j) = Some ds \<longrightarrow>
        (\<forall>i \<in> set ds. i < length ts \<and> stepNumber (ts ! i) < stepNumber (ts ! j)))"

text \<open>The same repositories after a turn of the worker in which the job of step 1 resolves.\<close>

definition completed_step_store :: Store where
  "completed_step_store =
     taskWorker_turn example_key
       (example_jobs (resolves_with (Some (JStr ''X''))) (resolves_with None)) two_step_store"

section \<open>Properties\<close>

subsection \<open>Validation\<close>

lemma validateStep_Inr_iff:
  "validateStep step = Inr () \<longleftrightarrow>
     \<not> missing_taskType (WorkflowStep.taskType step) \<and>
     (\<exists>own. WorkflowStep.stepNumber step = Some own \<and> own \<noteq> 0 \<and> \<not> depends_on_later (dependsOn step) own)"
  by (auto simp: validateStep_def split: option.splits)

lemma validateSteps_Inr_iff:
  "validateSteps sts = Inr () \<longleftrightarrow> (\<forall>step \<in> set sts. validateStep step = Inr ())"
  by (induction sts) (auto split: sum.splits)

lemma length_remdups_distinct: "length (remdups xs) = length xs \<longleftrightarrow> distinct xs"
  by (metis distinct_remdups length_remdups_eq remdups_id_iff_distinct)

lemma validate_Inr_iff:
  "validateWorkflowDefinition d = Inr () \<longleftrightarrow>
     (\<forall>step \<in> set (steps d). validateStep step = Inr ()) \<and>
     distinct (map WorkflowStep.stepNumber (steps d))"
proof (cases "validateSteps (steps d)")
  case (Inl e)
  then have "\<not> (\<forall>step \<in> set (steps d). validateStep step = Inr ())"
    using validateSteps_Inr_iff[of "steps d"] by simp
  with Inl show ?thesis by (simp add: validateWorkflowDefinition_def)
next
  case (Inr u)
  then have "\<forall>step \<in> set (steps d). validateStep step = Inr ()"
    using validateSteps_Inr_iff[of "steps d"] by simp
  with Inr show ?thesis
    using length_remdups_distinct[of "map WorkflowStep.stepNumber (steps d)"]
    by (simp add: validateWorkflowDefinition_def Let_def)
qed

lemma not_Inr_unit: "x \<noteq> Inr () \<Longrightarrow> \<exists>e. (x :: thrown + unit) = Inl e"
  by (cases x) auto

text \<open>
  A reference to a step number not below the step's own is rejected whenever the document
  writes it as a list, or as a single number other than 0.
\<close>

lemma later_reference_rejected:
  assumes "step \<in> set (steps document)"
    and "WorkflowStep.stepNumber step = Some own"
    and "n \<in> set (referenced_steps (dependsOn step))"
    and "own \<le> n"
    and "dependsOn step \<noteq> SingleStep 0"
  shows "\<exists>e. validateWorkflowDefinition (parseWorkflowDefinition document) = Inl e"
proof -
  let ?p = "\<lparr> WorkflowStep.taskType = WorkflowStep.taskType step,
              WorkflowStep.stepNumber = WorkflowStep.stepNumber step,
              dependsOn = castDependsOn (dependsOn step) \<rparr>"
  have mem: "?p \<in> set (steps (parseWorkflowDefinition document))"
    using assms(1) by (auto simp: parseWorkflowDefinition_def)
  have "castDependsOn (dependsOn step) = Some (referenced_steps (dependsOn step))"
    using assms(3,5) by (cases "dependsOn step") auto
  then have "depends_on_later (castDependsOn (dependsOn step)) own"
    using assms(3,4) by (auto simp: list_ex_iff)
  then have "validateStep ?p \<noteq> Inr ()"
    using assms(2) by (simp add: validateStep_Inr_iff)
  with mem have "validateWorkflowDefinition (parseWorkflowDefinition document) \<noteq> Inr ()"
    unfolding validate_Inr_iff by blast
  then show ?thesis by (rule not_Inr_unit)
qed

text \<open>
  Claim C4 fails on the code. The only step of \<open>bare_zero_document\<close> has the number -1
  and depends on step 0, a step number above its own. \<^verbatim>\<open>parseWorkflowDefinition\<close> tests
  \<^verbatim>\<open>dependsOn\<close> for truthiness before it makes an array of it, and so does the
  validation before it compares: the number 0 is skipped by both. The definition passes
  the validation, and \<^verbatim>\<open>createWorkflowFromYAML\<close> saves a workflow and a task for it.
\<close>

theorem bare_zero_dependency_passes_validation:
  "refers_to_later_step bare_zero_document
   \<and> validateWorkflowDefinition (parseWorkflowDefinition bare_zero_document) = Inr ()
   \<and> createWorkflowFromYAML example_key bare_zero_document ''client'' (JObj []) empty_store =
       (Inr \<lparr> WorkflowCols.workflowId = ''k'', WorkflowCols.clientId = ''client'',
               WorkflowCols.status = Initial, finalResult = None, input = ''{}'' \<rparr>,
        \<lparr> workflowRepository =
            [\<lparr> WorkflowCols.workflowId = ''k'', WorkflowCols.clientId = ''client'',
               WorkflowCols.status = Initial, finalResult = None, input = ''{}'' \<rparr>],
          taskRepository =
            [\<lparr> taskId = ''kk'', TaskCols.clientId = ''client'', TaskCols.status = Queued,
               TaskCols.workflowId = ''k'', progress = None, taskType = ''analysis'',
               stepNumber = - 1, workflowFk = Some ''k'', dependantFk = None \<rparr>],
          resultRepository = [], generated = 2 \<rparr>)"
proof -
  have 1: "refers_to_later_step bare_zero_document"
    by (simp add: refers_to_later_step_def bare_zero_document_def)
  have 2: "validateWorkflowDefinition (parseWorkflowDefinition bare_zero_document) = Inr ()"
    by (simp add: bare_zero_document_def parseWorkflowDefinition_def validateWorkflowDefinition_def
        validateStep_def)
  have 3: "createWorkflowFromYAML example_key bare_zero_document ''client'' (JObj []) empty_store =
       (Inr \<lparr> WorkflowCols.workflowId = ''k'', WorkflowCols.clientId = ''client'',
               WorkflowCols.status = Initial, finalResult = None, input = ''{}'' \<rparr>,
        \<lparr> workflowRepository =
            [\<lparr> WorkflowCols.workflowId = ''k'', WorkflowCols.clientId = ''client'',
               WorkflowCols.status = Initial, finalResult = None, input = ''{}'' \<rparr>],
          taskRepository =
            [\<lparr> taskId = ''kk'', TaskCols.clientId = ''client'', TaskCols.status = Queued,
               TaskCols.workflowId = ''k'', progress = None, taskType = ''analysis'',
               stepNumber = - 1, workflowFk = Some ''k'', dependantFk = None \<rparr>],
          resultRepository = [], generated = 2 \<rparr>)"
    by code_simp
  from 1 2 3 show ?thesis by blast
qed

text \<open>
  Claim C5, as the claim states it, fails: the validation tests a step number for
  presence (\<^verbatim>\<open>!step.stepNumber\<close>), not for its sign, so a definition whose only step
  has the number -1 passes.
\<close>

theorem negative_stepNumber_passes_validation:
  "validateWorkflowDefinition
     \<lparr> name = ''w'', steps = [\<lparr> WorkflowStep.taskType = Some ''analysis'',
                                 WorkflowStep.stepNumber = Some (- 1), dependsOn = None \<rparr>] \<rparr> = Inr ()"
  by (simp add: validateWorkflowDefinition_def validateStep_def)

text \<open>
  Claim C5, amended. A definition with a step whose step number is absent or 0 fails the
  validation; every definition that passes it has, in every step, a step number that is
  present and not 0.
\<close>

theorem valid_stepNumbers_present_nonzero:
  "(has_missing_stepNumber d \<longrightarrow> (\<exists>e. validateWorkflowDefinition d = Inl e))
   \<and> (validateWorkflowDefinition d = Inr () \<longrightarrow>
        (\<forall>step \<in> set (steps d). \<exists>n. WorkflowStep.stepNumber step = Some n \<and> n \<noteq> 0))"
proof (intro conjI impI ballI)
  assume "has_missing_stepNumber d"
  then obtain step where st: "step \<in> set (steps d)"
      "WorkflowStep.stepNumber step = None \<or> WorkflowStep.stepNumber step = Some 0"
    unfolding has_missing_stepNumber_def list_ex_iff by blast
  from st(2) have "validateStep step \<noteq> Inr ()"
    unfolding validateStep_Inr_iff by auto
  with st(1) have "validateWorkflowDefinition d \<noteq> Inr ()"
    unfolding validate_Inr_iff by blast
  then show "\<exists>e. validateWorkflowDefinition d = Inl e"
    by (rule not_Inr_unit)
next
  fix step
  assume "validateWorkflowDefinition d = Inr ()" and "step \<in> set (steps d)"
  then have "validateStep step = Inr ()" by (simp add: validate_Inr_iff)
  then show "\<exists>n. WorkflowStep.stepNumber step = Some n \<and> n \<noteq> 0"
    unfolding validateStep_Inr_iff by blast
qed

theorem valid_stepNumbers_present_nonzero_witness:
  "(\<exists>e. validateWorkflowDefinition
        \<lparr> name = ''w'', steps = [\<lparr> WorkflowStep.taskType = Some ''analysis'',
                                    WorkflowStep.stepNumber = None, dependsOn = None \<rparr>] \<rparr> = Inl e)
   \<and> validateWorkflowDefinition
        \<lparr> name = ''w'', steps = [\<lparr> WorkflowStep.taskType = Some ''analysis'',
                                    WorkflowStep.stepNumber = Some (- 1), dependsOn = None \<rparr>] \<rparr> = Inr ()
   \<and> (\<exists>n. WorkflowStep.stepNumber
             \<lparr> WorkflowStep.taskType = Some ''analysis'', WorkflowStep.stepNumber = Some (- 1),
               dependsOn = None :: int list option \<rparr> = Some n \<and> n \<noteq> 0)"
proof -
  let ?bad = "\<lparr> name = ''w'', steps = [\<lparr> WorkflowStep.taskType = Some ''analysis'',
                                    WorkflowStep.stepNumber = None, dependsOn = None :: int list option \<rparr>] \<rparr>"
  let ?good = "\<lparr> name = ''w'', steps = [\<lparr> WorkflowStep.taskType = Some ''analysis'',
                                    WorkflowStep.stepNumber = Some (- 1), dependsOn = None :: int list option \<rparr>] \<rparr>"
  have b: "has_missing_stepNumber ?bad" by (simp add: has_missing_stepNumber_def)
  have g: "validateWorkflowDefinition ?good = Inr ()"
    by (simp add: validateWorkflowDefinition_def validateStep_def)
  from valid_stepNumbers_present_nonzero[of ?bad] b
  have 1: "\<exists>e. validateWorkflowDefinition ?bad = Inl e" by blast
  from valid_stepNumbers_present_nonzero[of ?good] g
  have 2: "\<exists>n. Some (- 1 :: int) = Some n \<and> n \<noteq> 0" by simp
  from 1 g 2 show ?thesis by simp
qed

subsection \<open>Building the graph\<close>

lemma findIndex_Some:
  "\<exists>x \<in> set xs. P x \<Longrightarrow> \<exists>i. findIndex P xs = Some i \<and> i < length xs \<and> P (xs ! i)"
proof (induction xs)
  case Nil
  then show ?case by simp
next
  case (Cons a xs)
  show ?case
  proof (cases "P a")
    case True
    then show ?thesis by simp
  next
    case False
    with Cons.prems have "\<exists>x \<in> set xs. P x" by simp
    from Cons.IH[OF this] obtain i where "findIndex P xs = Some i" "i < length xs" "P (xs ! i)"
      by blast
    with False have "findIndex P (a # xs) = Some (Suc i)" "Suc i < length (a # xs)"
        "P ((a # xs) ! Suc i)"
      by simp_all
    then show ?thesis by blast
  qed
qed

lemma erase_update:
  "i < length ts \<Longrightarrow> erase (ts[i := (ts ! i)\<lparr> dependencies := ds \<rparr>]) = erase ts"
  by (simp add: erase_def map_update list_update_same_conv)

lemma erase_length: "erase ts' = erase ts \<Longrightarrow> length ts' = length ts"
  by (metis erase_def length_map)

lemma erase_nth:
  assumes "erase ts' = erase ts" "i < length ts"
  shows "(ts' ! i)\<lparr> dependencies := None \<rparr> = (ts ! i)\<lparr> dependencies := None \<rparr>"
proof -
  have "length ts' = length ts" using assms(1) by (rule erase_length)
  then have "erase ts' ! i = (ts' ! i)\<lparr> dependencies := None \<rparr>"
      "erase ts ! i = (ts ! i)\<lparr> dependencies := None \<rparr>"
    using assms(2) by (simp_all add: erase_def)
  then show ?thesis using assms(1) by simp
qed

lemma erase_stepNumbers: "erase ts' = erase ts \<Longrightarrow> map stepNumber ts' = map stepNumber ts"
proof -
  assume "erase ts' = erase ts"
  then have "map stepNumber (erase ts') = map stepNumber (erase ts)" by simp
  then show ?thesis by (simp add: erase_def comp_def)
qed

lemma populate_steps_total:
  assumes "\<forall>step \<in> set sts. the (WorkflowStep.stepNumber step) \<in> set (map stepNumber ts)"
  shows "\<exists>ts'. populate_steps sts ts = Inr ts' \<and> erase ts' = erase ts"
  using assms
proof (induction sts arbitrary: ts)
  case Nil
  then show ?case by simp
next
  case (Cons step rest)
  show ?case
  proof (cases "dependsOn step")
    case None
    with Cons show ?thesis by simp
  next
    case (Some ds)
    have "\<exists>t \<in> set ts. stepNumber t = the (WorkflowStep.stepNumber step)"
      using Cons.prems by auto
    from findIndex_Some[OF this] obtain i where
      i: "findIndex (\<lambda>t. stepNumber t = the (WorkflowStep.stepNumber step)) ts = Some i" "i < length ts"
      by blast
    let ?ts1 = "ts[i := (ts ! i)\<lparr> dependencies :=
                  Some (filter (\<lambda>j. stepNumber (ts ! j) \<in> set ds) [0..<length ts]) \<rparr>]"
    have e1: "erase ?ts1 = erase ts" using i(2) by (rule erase_update)
    then have "map stepNumber ?ts1 = map stepNumber ts" by (rule erase_stepNumbers)
    with Cons.prems have "\<forall>step \<in> set rest. the (WorkflowStep.stepNumber step) \<in> set (map stepNumber ?ts1)"
      by simp
    from Cons.IH[OF this] obtain ts' where "populate_steps rest ?ts1 = Inr ts'" "erase ts' = erase ?ts1"
      by blast
    with e1 i(1) Some show ?thesis by simp
  qed
qed

lemma createTasks_stepNumbers:
  "map stepNumber (createTasks d w) = map (\<lambda>step. the (WorkflowStep.stepNumber step)) (steps d)"
  by (simp add: createTasks_def comp_def)

lemma populateDependencies_createTasks:
  "\<exists>ts. populateDependencies d (createTasks d w) = Inr ts \<and> erase ts = erase (createTasks d w)"
  unfolding populateDependencies_def
  by (rule populate_steps_total) (simp add: createTasks_stepNumbers)

lemma parse_steps_length: "length (steps (parseWorkflowDefinition document)) = length (steps document)"
  by (simp add: parseWorkflowDefinition_def)

lemma parse_steps_nth:
  "i < length (steps document) \<Longrightarrow>
     WorkflowStep.taskType (steps (parseWorkflowDefinition document) ! i) = WorkflowStep.taskType (steps document ! i)
     \<and> WorkflowStep.stepNumber (steps (parseWorkflowDefinition document) ! i) = WorkflowStep.stepNumber (steps document ! i)"
  by (simp add: parseWorkflowDefinition_def)

lemma valid_step_present:
  assumes "validateWorkflowDefinition d = Inr ()" "i < length (steps d)"
  shows "\<exists>ty n. WorkflowStep.taskType (steps d ! i) = Some ty \<and> WorkflowStep.stepNumber (steps d ! i) = Some n"
proof -
  have "validateStep (steps d ! i) = Inr ()"
    using assms by (simp add: validate_Inr_iff)
  then show ?thesis
    unfolding validateStep_Inr_iff by (cases "WorkflowStep.taskType (steps d ! i)") auto
qed

lemma erase_cols:
  assumes "erase ts' = erase ts" "i < length ts"
  shows "TaskCols.clientId (ts' ! i) = TaskCols.clientId (ts ! i)"
    "TaskCols.status (ts' ! i) = TaskCols.status (ts ! i)"
    "TaskCols.workflowId (ts' ! i) = TaskCols.workflowId (ts ! i)"
    "progress (ts' ! i) = progress (ts ! i)"
    "taskType (ts' ! i) = taskType (ts ! i)"
    "stepNumber (ts' ! i) = stepNumber (ts ! i)"
    "Task.workflow (ts' ! i) = Task.workflow (ts ! i)"
    "dependant (ts' ! i) = dependant (ts ! i)"
proof -
  note e = erase_nth[OF assms]
  show "TaskCols.clientId (ts' ! i) = TaskCols.clientId (ts ! i)"
    using arg_cong[OF e, of TaskCols.clientId] by simp
  show "TaskCols.status (ts' ! i) = TaskCols.status (ts ! i)"
    using arg_cong[OF e, of TaskCols.status] by simp
  show "TaskCols.workflowId (ts' ! i) = TaskCols.workflowId (ts ! i)"
    using arg_cong[OF e, of TaskCols.workflowId] by simp
  show "progress (ts' ! i) = progress (ts ! i)"
    using arg_cong[OF e, of progress] by simp
  show "taskType (ts' ! i) = taskType (ts ! i)"
    using arg_cong[OF e, of taskType] by simp
  show "stepNumber (ts' ! i) = stepNumber (ts ! i)"
    using arg_cong[OF e, of stepNumber] by simp
  show "Task.workflow (ts' ! i) = Task.workflow (ts ! i)"
    using arg_cong[OF e, of Task.workflow] by simp
  show "dependant (ts' ! i) = dependant (ts ! i)"
    using arg_cong[OF e, of dependant] by simp
qed

lemma createWorkflowFromYAML_valid:
  assumes "validateWorkflowDefinition (parseWorkflowDefinition document) = Inr ()"
  shows "\<exists>ts. populateDependencies (parseWorkflowDefinition document)
                (createTasks (parseWorkflowDefinition document) (saved_workflow newId cid inp s)) = Inr ts
           \<and> erase ts = erase (createTasks (parseWorkflowDefinition document) (saved_workflow newId cid inp s))
           \<and> createWorkflowFromYAML newId document cid inp s =
               (Inr (saved_workflow newId cid inp s),
                taskRepository_save_all newId ts
                  (s\<lparr> workflowRepository := workflowRepository s @ [saved_workflow newId cid inp s],
                      generated := generated s + 1 \<rparr>))"
proof -
  let ?d = "parseWorkflowDefinition document"
  let ?w = "saved_workflow newId cid inp s"
  from populateDependencies_createTasks[of ?d ?w] obtain ts where
    ts: "populateDependencies ?d (createTasks ?d ?w) = Inr ts" "erase ts = erase (createTasks ?d ?w)"
    by blast
  have ins: "workflowRepository_insert newId (createWorkflow cid inp) s =
      (?w, s\<lparr> workflowRepository := workflowRepository s @ [?w], generated := generated s + 1 \<rparr>)"
    by (simp add: workflowRepository_insert_def createWorkflow_def saved_workflow_def Let_def)
  have "createWorkflowFromYAML newId document cid inp s =
      (Inr ?w, taskRepository_save_all newId ts
         (s\<lparr> workflowRepository := workflowRepository s @ [?w], generated := generated s + 1 \<rparr>))"
    unfolding createWorkflowFromYAML_def Let_def assms ins using ts(1) by simp
  with ts show ?thesis by blast
qed

text \<open>A document that obeys the four rules passes the validation.\<close>

lemma valid_definition_passes:
  assumes "valid_definition document"
  shows "validateWorkflowDefinition (parseWorkflowDefinition document) = Inr ()"
proof -
  have step: "validateStep \<lparr> WorkflowStep.taskType = WorkflowStep.taskType step,
                               WorkflowStep.stepNumber = WorkflowStep.stepNumber step,
                               dependsOn = castDependsOn (dependsOn step) \<rparr> = Inr ()"
    if "step \<in> set (steps document)" for step
  proof -
    from assms that obtain ty own where ty: "WorkflowStep.taskType step = Some ty" "ty \<noteq> []"
      and own: "WorkflowStep.stepNumber step = Some own" "0 < own"
      and refs: "\<forall>n \<in> set (referenced_steps (dependsOn step)). n < own"
      unfolding valid_definition_def list_all_iff
      by (cases "WorkflowStep.taskType step"; cases "WorkflowStep.stepNumber step") auto
    have "\<not> depends_on_later (castDependsOn (dependsOn step)) own"
      using refs by (cases "dependsOn step") (auto simp: list_ex_iff)
    with ty own show ?thesis by (simp add: validateStep_Inr_iff)
  qed
  have "map WorkflowStep.stepNumber (steps (parseWorkflowDefinition document))
      = map WorkflowStep.stepNumber (steps document)"
    by (simp add: parseWorkflowDefinition_def comp_def)
  moreover from assms have "distinct (map WorkflowStep.stepNumber (steps document))"
    by (simp add: valid_definition_def)
  ultimately have "distinct (map WorkflowStep.stepNumber (steps (parseWorkflowDefinition document)))"
    by simp
  moreover have "\<forall>step \<in> set (steps (parseWorkflowDefinition document)). validateStep step = Inr ()"
    using step by (auto simp: parseWorkflowDefinition_def)
  ultimately show ?thesis unfolding validate_Inr_iff by (rule conjI[rotated])
qed

text \<open>
  Claim C6. For a definition that passes the validation, \<^verbatim>\<open>createWorkflowFromYAML\<close>
  returns one workflow, saved under a fresh key with status \<open>Initial\<close>, the client
  identifier given and the input document as \<^verbatim>\<open>JSON.stringify\<close> writes it; it adds
  that workflow and nothing else to the workflows, and to the tasks one row per step, in
  the order of the steps: the \<open>i\<close>-th new row has a fresh key, status \<open>Queued\<close>, the
  task type and the step number of the \<open>i\<close>-th step, the workflow's client identifier
  and the workflow's key. Every document that obeys the four rules of the validation
  passes it (\<open>valid_definition_passes\<close>).
\<close>

theorem createWorkflowFromYAML_builds_graph:
  assumes "validateWorkflowDefinition (parseWorkflowDefinition document) = Inr ()"
  shows "\<exists>w rows.
     createWorkflowFromYAML newId document cid inp s =
       (Inr w, s\<lparr> workflowRepository := workflowRepository s @ [w],
                   taskRepository := taskRepository s @ rows,
                   generated := generated s + 1 + length (steps document) \<rparr>)
     \<and> WorkflowCols.workflowId w = newId (generated s)
     \<and> WorkflowCols.clientId w = cid
     \<and> WorkflowCols.status w = Initial
     \<and> input w = JSON_stringify inp
     \<and> length rows = length (steps document)
     \<and> (\<forall>i < length (steps document).
           taskId (rows ! i) = newId (generated s + 1 + i)
           \<and> TaskCols.status (rows ! i) = Queued
           \<and> Some (taskType (rows ! i)) = WorkflowStep.taskType (steps document ! i)
           \<and> Some (stepNumber (rows ! i)) = WorkflowStep.stepNumber (steps document ! i)
           \<and> TaskCols.clientId (rows ! i) = cid
           \<and> TaskCols.workflowId (rows ! i) = newId (generated s)
           \<and> workflowFk (rows ! i) = Some (newId (generated s)))"
proof -
  let ?d = "parseWorkflowDefinition document"
  let ?w = "saved_workflow newId cid inp s"
  let ?s1 = "s\<lparr> workflowRepository := workflowRepository s @ [?w], generated := generated s + 1 \<rparr>"
  let ?n = "length (steps document)"
  from createWorkflowFromYAML_valid[OF assms, of newId cid inp s] obtain ts where
    e: "erase ts = erase (createTasks ?d ?w)"
    and c: "createWorkflowFromYAML newId document cid inp s = (Inr ?w, taskRepository_save_all newId ts ?s1)"
    by blast
  have len0: "length (createTasks ?d ?w) = ?n"
    by (simp add: createTasks_def parse_steps_length)
  have len: "length ts = ?n"
    using erase_length[OF e] len0 by simp
  define rows where "rows = drop (length (taskRepository s)) (taskRepository (taskRepository_save_all newId ts ?s1))"
  have store: "taskRepository_save_all newId ts ?s1 =
      s\<lparr> workflowRepository := workflowRepository s @ [?w],
         taskRepository := taskRepository s @ rows,
         generated := generated s + 1 + ?n \<rparr>"
    by (simp add: rows_def taskRepository_save_all_def Let_def len)
  have lrows: "length rows = ?n"
    by (simp add: rows_def taskRepository_save_all_def Let_def len)
  have each: "taskId (rows ! i) = newId (generated s + 1 + i)
           \<and> TaskCols.status (rows ! i) = Queued
           \<and> Some (taskType (rows ! i)) = WorkflowStep.taskType (steps document ! i)
           \<and> Some (stepNumber (rows ! i)) = WorkflowStep.stepNumber (steps document ! i)
           \<and> TaskCols.clientId (rows ! i) = cid
           \<and> TaskCols.workflowId (rows ! i) = newId (generated s)
           \<and> workflowFk (rows ! i) = Some (newId (generated s))" if i: "i < ?n" for i
  proof -
    have i0: "i < length (createTasks ?d ?w)" using i len0 by simp
    note cols = erase_cols[OF e i0]
    from valid_step_present[OF assms, of i] i obtain ty n where
      p: "WorkflowStep.taskType (steps ?d ! i) = Some ty" "WorkflowStep.stepNumber (steps ?d ! i) = Some n"
      by (auto simp: parse_steps_length)
    have ct: "createTasks ?d ?w ! i =
        \<lparr> taskId = (), clientId = cid, status = Queued, workflowId = newId (generated s),
          progress = None, taskType = ty, stepNumber = n, result = None,
          Task.workflow = Some ?w, dependant = None, dependencies = None \<rparr>"
      using i p by (simp add: createTasks_def parse_steps_length saved_workflow_def)
    have row: "rows ! i =
        \<lparr> taskId = newId (generated s + 1 + i), clientId = TaskCols.clientId (ts ! i),
          status = TaskCols.status (ts ! i), workflowId = TaskCols.workflowId (ts ! i),
          progress = progress (ts ! i), taskType = taskType (ts ! i),
          stepNumber = stepNumber (ts ! i),
          workflowFk = map_option WorkflowCols.workflowId (Task.workflow (ts ! i)),
          dependantFk =
            (case consumer_of ts i of
               Some c \<Rightarrow> Some (newId (generated s + 1 + c))
             | None \<Rightarrow> map_option taskId (dependant (ts ! i))) \<rparr>"
      using i by (simp add: rows_def taskRepository_save_all_def Let_def len add.assoc split: option.splits)
    from parse_steps_nth[OF i] p have
      q: "WorkflowStep.taskType (steps document ! i) = Some ty"
         "WorkflowStep.stepNumber (steps document ! i) = Some n"
      by simp_all
    show ?thesis
      unfolding row cols ct q by (simp add: saved_workflow_def)
  qed
  have w: "WorkflowCols.workflowId ?w = newId (generated s)" "WorkflowCols.clientId ?w = cid"
      "WorkflowCols.status ?w = Initial" "input ?w = JSON_stringify inp"
    by (simp_all add: saved_workflow_def)
  from c store lrows each w show ?thesis by metis
qed

lemma example_key_small:
  "example_key 0 = ''k''" "example_key 1 = ''kk''" "example_key (Suc 0) = ''kk''"
  "example_key 2 = ''kkk''" "example_key (Suc (Suc 0)) = ''kkk''" "example_key 3 = ''kkkk''"
  "example_key 4 = ''kkkkk''"
  by code_simp+

theorem createWorkflowFromYAML_builds_graph_witness:
  "validateWorkflowDefinition (parseWorkflowDefinition two_step_document) = Inr ()
   \<and> (\<exists>w rows.
        createWorkflowFromYAML example_key two_step_document ''client'' (JObj []) empty_store =
          (Inr w, \<lparr> workflowRepository = [w], taskRepository = rows, resultRepository = [],
                    generated = 3 \<rparr>)
        \<and> WorkflowCols.workflowId w = ''k'' \<and> WorkflowCols.clientId w = ''client''
        \<and> WorkflowCols.status w = Initial \<and> input w = ''{}''
        \<and> length rows = 2
        \<and> taskId (rows ! 0) = ''kk'' \<and> TaskCols.status (rows ! 0) = Queued
        \<and> taskType (rows ! 0) = ''analysis'' \<and> stepNumber (rows ! 0) = 1
        \<and> TaskCols.clientId (rows ! 0) = ''client'' \<and> TaskCols.workflowId (rows ! 0) = ''k''
        \<and> taskId (rows ! 1) = ''kkk'' \<and> TaskCols.status (rows ! 1) = Queued
        \<and> taskType (rows ! 1) = ''notification'' \<and> stepNumber (rows ! 1) = 2
        \<and> TaskCols.clientId (rows ! 1) = ''client'' \<and> TaskCols.workflowId (rows ! 1) = ''k'')"
proof -
  have v: "validateWorkflowDefinition (parseWorkflowDefinition two_step_document) = Inr ()"
    by (simp add: two_step_document_def parseWorkflowDefinition_def validateWorkflowDefinition_def
        validateStep_def)
  note k = example_key_small
  have j: "JSON_stringify (JObj []) = ''{}''" by simp
  from createWorkflowFromYAML_builds_graph[OF v, of example_key "''client''" "JObj []" empty_store]
  obtain w rows where
    c: "createWorkflowFromYAML example_key two_step_document ''client'' (JObj []) empty_store =
          (Inr w, empty_store\<lparr> workflowRepository := workflowRepository empty_store @ [w],
                   taskRepository := taskRepository empty_store @ rows,
                   generated := generated empty_store + 1 + length (steps two_step_document) \<rparr>)"
    and w: "WorkflowCols.workflowId w = example_key (generated empty_store)" "WorkflowCols.clientId w = ''client''"
      "WorkflowCols.status w = Initial" "input w = JSON_stringify (JObj [])"
    and l: "length rows = length (steps two_step_document)"
    and r: "\<forall>i < length (steps two_step_document).
           taskId (rows ! i) = example_key (generated empty_store + 1 + i)
           \<and> TaskCols.status (rows ! i) = Queued
           \<and> Some (taskType (rows ! i)) = WorkflowStep.taskType (steps two_step_document ! i)
           \<and> Some (stepNumber (rows ! i)) = WorkflowStep.stepNumber (steps two_step_document ! i)
           \<and> TaskCols.clientId (rows ! i) = ''client''
           \<and> TaskCols.workflowId (rows ! i) = example_key (generated empty_store)
           \<and> workflowFk (rows ! i) = Some (example_key (generated empty_store))"
    by blast
  have n: "length (steps two_step_document) = 2" by (simp add: two_step_document_def)
  from r[rule_format, of 0] n have r0: "taskId (rows ! 0) = ''kk'' \<and> TaskCols.status (rows ! 0) = Queued
        \<and> taskType (rows ! 0) = ''analysis'' \<and> stepNumber (rows ! 0) = 1
        \<and> TaskCols.clientId (rows ! 0) = ''client'' \<and> TaskCols.workflowId (rows ! 0) = ''k''"
    using k by (simp add: two_step_document_def empty_store_def)
  from r[rule_format, of 1] n have r1: "taskId (rows ! 1) = ''kkk'' \<and> TaskCols.status (rows ! 1) = Queued
        \<and> taskType (rows ! 1) = ''notification'' \<and> stepNumber (rows ! 1) = 2
        \<and> TaskCols.clientId (rows ! 1) = ''client'' \<and> TaskCols.workflowId (rows ! 1) = ''k''"
    using k by (simp add: two_step_document_def empty_store_def)
  have c': "createWorkflowFromYAML example_key two_step_document ''client'' (JObj []) empty_store =
          (Inr w, \<lparr> workflowRepository = [w], taskRepository = rows, resultRepository = [],
                    generated = 3 \<rparr>)"
    using c n by (simp add: empty_store_def)
  from w k j have w': "WorkflowCols.workflowId w = ''k''" "input w = ''{}''"
    by (simp_all add: empty_store_def)
  from v c' w' w(2,3) l n r0 r1 show ?thesis by auto
qed

subsection \<open>Running a task\<close>

lemma getJobContext_outputs:
  "JobContext.workflow (getJobContext t) = Task.workflow t"
  "dependencies t = None \<Longrightarrow> dependenciesOutputs (getJobContext t) = []"
  "dependencies t = Some deps \<Longrightarrow>
     dependenciesOutputs (getJobContext t)
       = map (\<lambda>dependency. case result dependency of None \<Rightarrow> None | Some r \<Rightarrow> data r) deps"
  by (simp_all add: getJobContext_def)

lemma update_workflow_keeps:
  "taskRepository (snd (update_workflow t s)) = taskRepository s"
  "resultRepository (snd (update_workflow t s)) = resultRepository s"
  by (simp_all add: update_workflow_def workflowRepository_save_def Let_def
      split: option.splits)



lemma write_cols_fields [simp]:
  "taskId (write_cols t r) = taskId r"
  "TaskCols.status (write_cols t r) = TaskCols.status t"
  "progress (write_cols t r) = progress t"
  "TaskCols.workflowId (write_cols t r) = TaskCols.workflowId t"
  "stepNumber (write_cols t r) = stepNumber t"
  "workflowFk (write_cols t r) = workflowFk r"
  "dependantFk (write_cols t r) = dependantFk r"
  by (simp_all add: write_cols_def)

lemma write_relations_fields [simp]:
  "taskId (write_relations t r) = taskId r"
  "TaskCols.status (write_relations t r) = TaskCols.status r"
  "progress (write_relations t r) = progress r"
  "TaskCols.workflowId (write_relations t r) = TaskCols.workflowId r"
  "stepNumber (write_relations t r) = stepNumber r"
  "dependantFk (write_relations t r)
     = (case dependant t of None \<Rightarrow> dependantFk r | Some d \<Rightarrow> Some (taskId d))"
  by (simp_all add: write_relations_def)

lemma new_row_fields [simp]:
  "taskId (new_row t a b) = taskId t"
  "TaskCols.status (new_row t a b) = TaskCols.status t"
  "progress (new_row t a b) = progress t"
  "TaskCols.workflowId (new_row t a b) = TaskCols.workflowId t"
  "stepNumber (new_row t a b) = stepNumber t"
  "workflowFk (new_row t a b) = a"
  "dependantFk (new_row t a b) = b"
  by (simp_all add: new_row_def)

lemma taskRepository_save_rows:
  "taskRepository (taskRepository_save t s) =
     (if \<exists>r \<in> set (taskRepository s). taskId r = taskId t
      then map (\<lambda>r. if taskId r = taskId t then write_relations t (write_cols t r) else r)
             (taskRepository s)
      else taskRepository s @
             [new_row t (map_option WorkflowCols.workflowId (Task.workflow t))
                (map_option taskId (dependant t))])"
  by (simp add: taskRepository_save_def Let_def list_ex_iff)

lemma taskRepository_save_cols_rows:
  "taskRepository (taskRepository_save_cols d s) =
     (if \<exists>r \<in> set (taskRepository s). taskId r = taskId d
      then map (\<lambda>r. if taskId r = taskId d then write_cols d r else r) (taskRepository s)
      else taskRepository s @ [new_row d None None])"
  by (simp add: taskRepository_save_cols_def list_ex_iff)



text \<open>
  Claim C1 fails on the code in its last part. In the two-step graph the job of step 1
  rejects with the message \<open>boom\<close>. \<^verbatim>\<open>run\<close> on the task of step 1 throws that error
  again; the task is \<open>Failed\<close>, its consumer \<open>Skipped\<close>, and a result with the message
  is saved (with no task attached to it: the \<^verbatim>\<open>catch\<close> block never assigns
  \<^verbatim>\<open>task.result\<close>). But the \<^verbatim>\<open>throw\<close> leaves \<^verbatim>\<open>run\<close> before the workflow is read and
  its status recomputed: the workflow is still \<open>Initial\<close>, and as no task is queued any
  more, no later turn of the worker changes that.
\<close>

theorem failed_run_leaves_workflow_initial:
  "map_option (\<lambda>t. (stepNumber t,
                     fst (run example_key (example_jobs (rejects_with ''boom'') (resolves_with None)) t
                            two_step_store)))
     (taskRepository_findOne_queued two_step_store) = Some (1, Some (Error ''boom''))
   \<and> map (\<lambda>r. (stepNumber r, TaskCols.status r))
        (taskRepository (taskWorker_turn example_key
           (example_jobs (rejects_with ''boom'') (resolves_with None)) two_step_store))
       = [(1, TaskStatus.Failed), (2, Skipped)]
   \<and> map (\<lambda>r. (error r, taskFk r))
        (resultRepository (taskWorker_turn example_key
           (example_jobs (rejects_with ''boom'') (resolves_with None)) two_step_store))
       = [(Some (Message ''boom''), None)]
   \<and> map WorkflowCols.status
        (workflowRepository (taskWorker_turn example_key
           (example_jobs (rejects_with ''boom'') (resolves_with None)) two_step_store))
       = [Initial]
   \<and> next_queued (taskWorker_turn example_key
        (example_jobs (rejects_with ''boom'') (resolves_with None)) two_step_store) = None"
  by code_simp

text \<open>
  Claim C2 fails on the code, by the same early exit. After the run of the failing task of
  step 1, the workflow read with its tasks has the status \<open>Initial\<close>, while its tasks are
  \<open>Failed\<close> and \<open>Skipped\<close> and the rule gives \<open>Failed\<close> for them.
\<close>

theorem failed_run_workflow_status_not_aggregate:
  "map_option (\<lambda>w. (WorkflowCols.status w, map TaskCols.status (tasks w),
                     aggregate_status (map TaskCols.status (tasks w))))
     (workflowRepository_findOne ''k''
        (taskWorker_turn example_key
           (example_jobs (rejects_with ''boom'') (resolves_with None)) two_step_store))
   = Some (Initial, [TaskStatus.Failed, Skipped], WorkflowStatus.Failed)"
  by code_simp

text \<open>
  Claim C3 fails on the code. \<^verbatim>\<open>JobFactory.get\<close> is called before the \<^verbatim>\<open>try\<close>
  statement, after the task was saved as \<open>InProgress\<close>. For a task of the type
  \<open>unknown\<close> it throws, \<^verbatim>\<open>run\<close> ends there: the task stays \<open>InProgress\<close> with its
  progress note, no result is saved, and the worker never selects the task again.
\<close>

theorem unknown_task_type_left_in_progress:
  "map_option (\<lambda>t. (taskType t,
                     fst (run example_key (example_jobs (resolves_with None) (resolves_with None)) t
                            unknown_type_store)))
     (taskRepository_findOne_queued unknown_type_store)
     = Some (''unknown'', Some (Error ''No job found for task type: unknown''))
   \<and> map (\<lambda>r. (taskType r, TaskCols.status r, progress r))
        (taskRepository (taskWorker_turn example_key
           (example_jobs (resolves_with None) (resolves_with None)) unknown_type_store))
       = [(''unknown'', TaskStatus.InProgress, Some ''starting job...'')]
   \<and> resultRepository (taskWorker_turn example_key
        (example_jobs (resolves_with None) (resolves_with None)) unknown_type_store) = []
   \<and> next_queued (taskWorker_turn example_key
        (example_jobs (resolves_with None) (resolves_with None)) unknown_type_store) = None"
  by code_simp

text \<open>
  Claim C7 fails on the code. \<^verbatim>\<open>getJobContext\<close> collects the outputs of the
  dependencies the task entity holds, but the worker loads a task with the relations
  \<^verbatim>\<open>workflow\<close> and \<^verbatim>\<open>dependant\<close> only. In the two-step graph, once step 1 has
  succeeded with the payload \<open>X\<close> (saved as the result of its task), the task selected next
  is the one of step 2, and the context built for it has no outputs at all.
\<close>

theorem worker_context_has_no_outputs:
  "map (\<lambda>r. (data r, taskFk r))
     (resultRepository (taskWorker_turn example_key
        (example_jobs (resolves_with (Some (JStr ''X''))) (resolves_with None)) two_step_store))
     = [(Some (JSON_stringify (JStr ''X'')), Some ''kk'')]
   \<and> map_option (\<lambda>t. (taskId t, stepNumber t, dependenciesOutputs (getJobContext t)))
        (taskRepository_findOne_queued (taskWorker_turn example_key
           (example_jobs (resolves_with (Some (JStr ''X''))) (resolves_with None)) two_step_store))
     = Some (''kkk'', 2, [])"
  by code_simp





subsection \<open>The order of execution\<close>

text \<open>The worker's query returns a least queued task.\<close>

lemma task_before_trans:
  "task_before a b \<Longrightarrow> task_before b c \<Longrightarrow> task_before a c"
  by (auto simp: task_before_def)

lemma not_task_before_trans:
  "\<not> task_before b a \<Longrightarrow> \<not> task_before c b \<Longrightarrow> \<not> task_before c a"
  by (auto simp: task_before_def not_less)

lemma first_in_order_least:
  "first_in_order best rs \<in> set (best # rs)
   \<and> (\<forall>x \<in> set (best # rs). \<not> task_before x (first_in_order best rs))"
proof (induction rs arbitrary: best)
  case Nil
  then show ?case by (simp add: task_before_def)
next
  case (Cons r rs)
  let ?b = "if task_before r best then r else best"
  let ?m = "first_in_order ?b rs"
  from Cons.IH[of ?b] have m: "?m \<in> set (?b # rs)"
    and least: "\<And>x. x \<in> set (?b # rs) \<Longrightarrow> \<not> task_before x ?m"
    by blast+
  have b: "\<not> task_before ?b ?m" using least by simp
  have "\<not> task_before best ?m"
  proof (cases "task_before r best")
    case True
    with b have "\<not> task_before r ?m" by simp
    then show ?thesis using True task_before_trans by blast
  next
    case False
    with b show ?thesis by simp
  qed
  moreover have "\<not> task_before r ?m"
  proof (cases "task_before r best")
    case True
    with b show ?thesis by simp
  next
    case False
    with b have "\<not> task_before best ?m" by simp
    with False show ?thesis using not_task_before_trans by blast
  qed
  moreover have "?m \<in> set (best # r # rs)" using m by auto
  ultimately show ?case using least by auto
qed

lemma next_queued_least:
  assumes "next_queued s = Some r"
  shows "r \<in> set (taskRepository s)" "TaskCols.status r = Queued"
    "\<And>x. x \<in> set (taskRepository s) \<Longrightarrow> TaskCols.status x = Queued \<Longrightarrow> \<not> task_before x r"
proof -
  let ?q = "filter (\<lambda>r. TaskCols.status r = Queued) (taskRepository s)"
  from assms obtain b rs where q: "?q = b # rs" and r: "r = first_in_order b rs"
    by (auto simp: next_queued_def split: list.splits)
  from first_in_order_least[of b rs] r q have mem: "r \<in> set ?q"
    and least: "\<And>x. x \<in> set ?q \<Longrightarrow> \<not> task_before x r"
    by auto
  from mem show "r \<in> set (taskRepository s)" "TaskCols.status r = Queued" by auto
  fix x assume "x \<in> set (taskRepository s)" "TaskCols.status x = Queued"
  then have "x \<in> set ?q" by simp
  then show "\<not> task_before x r" by (rule least)
qed

lemma load_task_cols [simp]:
  "taskId (load_task s r) = taskId r"
  "TaskCols.workflowId (load_task s r) = TaskCols.workflowId r"
  "stepNumber (load_task s r) = stepNumber r"
  "TaskCols.status (load_task s r) = TaskCols.status r"
  by (simp_all add: load_task_def)

lemma findOne_queued_row:
  assumes "taskRepository_findOne_queued s = Some t"
  shows "\<exists>r. next_queued s = Some r \<and> t = load_task s r"
  using assms by (auto simp: taskRepository_findOne_queued_def)

text \<open>\<^verbatim>\<open>run\<close> leaves the graph of the tasks as it is.\<close>

lemma skeleton_write [simp]:
  "skeleton (write_cols t r) = (taskId r, TaskCols.workflowId t, stepNumber t, dependantFk r)"
  "skeleton (write_relations t r) =
     (taskId r, TaskCols.workflowId r, stepNumber r,
      case dependant t of None \<Rightarrow> dependantFk r | Some d \<Rightarrow> Some (taskId d))"
  by (simp_all add: skeleton_def)

lemma agrees_row:
  assumes "agrees t c (task_skeleton s)" "r \<in> set (taskRepository s)" "taskId r = taskId t"
  shows "TaskCols.workflowId r = TaskCols.workflowId t" "stepNumber r = stepNumber t"
    "\<And>k. c = Some k \<Longrightarrow> dependantFk r = Some k"
proof -
  have "skeleton r \<in> set (task_skeleton s)"
    using assms(2) by (simp add: task_skeleton_def)
  with assms(1,3) show "TaskCols.workflowId r = TaskCols.workflowId t" "stepNumber r = stepNumber t"
    "\<And>k. c = Some k \<Longrightarrow> dependantFk r = Some k"
    unfolding agrees_def skeleton_def by auto
qed

lemma agrees_exists:
  assumes "agrees t c (task_skeleton s)"
  shows "\<exists>r \<in> set (taskRepository s). taskId r = taskId t"
  using assms unfolding agrees_def task_skeleton_def skeleton_def by auto

lemma agrees_cong:
  assumes "taskId t' = taskId t" "TaskCols.workflowId t' = TaskCols.workflowId t"
    "stepNumber t' = stepNumber t"
  shows "agrees t' c sk = agrees t c sk"
  unfolding agrees_def assms ..

lemma taskRepository_save_skeleton:
  assumes "agrees t (map_option taskId (dependant t)) (task_skeleton s)"
  shows "task_skeleton (taskRepository_save t s) = task_skeleton s"
proof -
  have same: "skeleton (if taskId r = taskId t then write_relations t (write_cols t r) else r) = skeleton r"
    if "r \<in> set (taskRepository s)" for r
  proof (cases "taskId r = taskId t")
    case True
    note a = agrees_row[OF assms that True]
    show ?thesis
    proof (cases "dependant t")
      case None
      with True a(1,2) show ?thesis by (simp add: skeleton_def)
    next
      case (Some d)
      with a(3)[of "taskId d"] have "dependantFk r = Some (taskId d)" by simp
      with Some True a(1,2) show ?thesis by (simp add: skeleton_def)
    qed
  next
    case False
    then show ?thesis by simp
  qed
  from agrees_exists[OF assms] show ?thesis
    unfolding task_skeleton_def taskRepository_save_rows using same by (simp cong: map_cong)
qed

lemma taskRepository_save_cols_skeleton:
  assumes "agrees d None (task_skeleton s)"
  shows "task_skeleton (taskRepository_save_cols d s) = task_skeleton s"
proof -
  have same: "skeleton (if taskId r = taskId d then write_cols d r else r) = skeleton r"
    if "r \<in> set (taskRepository s)" for r
  proof (cases "taskId r = taskId d")
    case True
    note a = agrees_row[OF assms that True]
    with True show ?thesis by (simp add: skeleton_def)
  next
    case False
    then show ?thesis by simp
  qed
  from agrees_exists[OF assms] show ?thesis
    unfolding task_skeleton_def taskRepository_save_cols_rows using same by (simp cong: map_cong)
qed

lemma resultRepository_save_keeps [simp]:
  "task_skeleton (snd (resultRepository_save newId r s)) = task_skeleton s"
  "generated (snd (resultRepository_save newId r s)) = generated s + 1"
  by (simp_all add: resultRepository_save_def task_skeleton_def Let_def)

lemma update_workflow_skeleton [simp]:
  "task_skeleton (snd (update_workflow t s)) = task_skeleton s"
  "generated (snd (update_workflow t s)) = generated s"
  by (simp_all add: task_skeleton_def update_workflow_keeps update_workflow_def
      workflowRepository_save_def Let_def split: option.splits)

lemma save_generated [simp]:
  "generated (taskRepository_save t s) = generated s"
  "generated (taskRepository_save_cols d s) = generated s"
  by (simp_all add: taskRepository_save_def taskRepository_save_cols_def Let_def)

text \<open>What \<^verbatim>\<open>run\<close> does after the job has been looked up and run, in either case.\<close>

lemma finish_skeleton:
  fixes t :: "(uuid, 'd) Task"
  assumes "agrees t (map_option taskId (dependant t)) (task_skeleton s)"
    and "\<And>d. dependant t = Some d \<Longrightarrow> agrees d None (task_skeleton s)"
  shows "task_skeleton (case dependant t of None \<Rightarrow> taskRepository_save t s
                        | Some d \<Rightarrow> taskRepository_save_cols d (taskRepository_save t s))
         = task_skeleton s"
    and "generated (case dependant t of None \<Rightarrow> taskRepository_save t s
                        | Some d \<Rightarrow> taskRepository_save_cols d (taskRepository_save t s))
         = generated s"
proof -
  note s1 = taskRepository_save_skeleton[OF assms(1)]
  show "task_skeleton (case dependant t of None \<Rightarrow> taskRepository_save t s
                        | Some d \<Rightarrow> taskRepository_save_cols d (taskRepository_save t s))
         = task_skeleton s"
  proof (cases "dependant t")
    case None
    then show ?thesis using s1 by simp
  next
    case (Some d)
    from assms(2)[OF Some] have "agrees d None (task_skeleton (taskRepository_save t s))"
      unfolding s1 .
    from taskRepository_save_cols_skeleton[OF this] Some s1 show ?thesis by simp
  qed
  show "generated (case dependant t of None \<Rightarrow> taskRepository_save t s
                        | Some d \<Rightarrow> taskRepository_save_cols d (taskRepository_save t s))
         = generated s"
    by (cases "dependant t") simp_all
qed

lemma run_skeleton:
  fixes task :: "(uuid, uuid TaskResult) Task"
  assumes a: "agrees task (map_option taskId (dependant task)) (task_skeleton s)"
    and d: "\<And>d. dependant task = Some d \<Longrightarrow> agrees d None (task_skeleton s)"
  shows "task_skeleton (snd (snd (run newId jobMap task s))) = task_skeleton s
         \<and> generated s \<le> generated (snd (snd (run newId jobMap task s)))"
proof -
  let ?t1 = "task\<lparr> TaskCols.status := TaskStatus.InProgress, progress := Some ''starting job...'' \<rparr>"
  let ?s1 = "taskRepository_save ?t1 s"
  have c1: "agrees ?t1 c sk = agrees task c sk" for c sk
    by (rule agrees_cong) simp_all
  have a1: "agrees ?t1 (map_option taskId (dependant ?t1)) (task_skeleton s)"
    unfolding c1 using a by simp
  have sk1: "task_skeleton ?s1 = task_skeleton s"
    by (rule taskRepository_save_skeleton[OF a1])
  show ?thesis
  proof (cases "JobFactory_get jobMap (taskType ?t1)")
    case (Inl e)
    then show ?thesis using sk1 by (simp add: run_def Let_def)
  next
    case (Inr job)
    show ?thesis
    proof (cases "job ?s1 ?t1 (getJobContext ?t1)")
      case (Resolves v)
      let ?res = "\<lparr> resultId = (), data = Some (JSON_stringify (or_empty_object v)), error = None \<rparr>"
      let ?saved = "resultRepository_save newId ?res ?s1"
      let ?t2 = "?t1\<lparr> result := Some (fst ?saved), TaskCols.status := TaskStatus.Completed,
                    progress := None \<rparr>"
      let ?s4 = "case dependant ?t2 of None \<Rightarrow> taskRepository_save ?t2 (snd ?saved)
                 | Some d \<Rightarrow> taskRepository_save_cols d (taskRepository_save ?t2 (snd ?saved))"
      have sk2: "task_skeleton (snd ?saved) = task_skeleton s" using sk1 by simp
      have c2: "agrees ?t2 c sk = agrees task c sk" for c sk
        by (rule agrees_cong) simp_all
      have a2: "agrees ?t2 (map_option taskId (dependant ?t2)) (task_skeleton (snd ?saved))"
        unfolding sk2 c2 using a by simp
      have d2: "\<And>d. dependant ?t2 = Some d \<Longrightarrow> agrees d None (task_skeleton (snd ?saved))"
        unfolding sk2 using d by simp
      note f = finish_skeleton[OF a2 d2]
      have r: "run newId jobMap task s =
          (fst (update_workflow ?t2 ?s4), ?t2, snd (update_workflow ?t2 ?s4))"
        unfolding run_def Let_def Inr sum.case Resolves JobOutcome.case
        by (simp only: case_prod_beta Result.simps)
      show ?thesis unfolding r using f sk2 by simp
    next
      case (Rejects err)
      let ?res = "\<lparr> resultId = (), data = None, error = Some (message_or_error err) \<rparr>"
      let ?saved = "resultRepository_save newId ?res ?s1"
      let ?t2 = "?t1\<lparr> TaskCols.status := TaskStatus.Failed, progress := None,
                    dependant := map_option (\<lambda>d. d\<lparr> TaskCols.status := Skipped \<rparr>) (dependant ?t1) \<rparr>"
      let ?s4 = "case dependant ?t2 of None \<Rightarrow> taskRepository_save ?t2 (snd ?saved)
                 | Some d \<Rightarrow> taskRepository_save_cols d (taskRepository_save ?t2 (snd ?saved))"
      have sk2: "task_skeleton (snd ?saved) = task_skeleton s" using sk1 by simp
      have ids: "map_option taskId (dependant ?t2) = map_option taskId (dependant task)"
        by (cases "dependant task") simp_all
      have c2: "agrees ?t2 c sk = agrees task c sk" for c sk
        by (rule agrees_cong) simp_all
      have a2: "agrees ?t2 (map_option taskId (dependant ?t2)) (task_skeleton (snd ?saved))"
        unfolding sk2 ids c2 using a by simp
      have d2: "agrees d' None (task_skeleton (snd ?saved))" if "dependant ?t2 = Some d'" for d'
      proof -
        from that obtain d0 where d0: "dependant task = Some d0"
          and d': "d' = d0\<lparr> TaskCols.status := Skipped \<rparr>"
          by (cases "dependant task") auto
        have "agrees (d0\<lparr> TaskCols.status := Skipped \<rparr>) c sk = agrees d0 c sk" for c sk
          by (rule agrees_cong) simp_all
        with d[OF d0] show ?thesis unfolding sk2 d' by simp
      qed
      note f = finish_skeleton[OF a2 d2]
      have r: "run newId jobMap task s = (Some err, ?t2, ?s4)"
        unfolding run_def Let_def Inr sum.case Rejects JobOutcome.case
        by (simp only: case_prod_beta Result.simps)
      show ?thesis unfolding r using f sk2 by simp
    qed
  qed
qed

text \<open>The dependencies \<^verbatim>\<open>populateDependencies\<close> assigns point to smaller step numbers.\<close>

lemma findIndex_SomeD:
  "findIndex P xs = Some i \<Longrightarrow> i < length xs \<and> P (xs ! i)"
proof (induction xs arbitrary: i)
  case Nil
  then show ?case by simp
next
  case (Cons a xs)
  show ?case
  proof (cases "P a")
    case True
    with Cons.prems show ?thesis by simp
  next
    case False
    with Cons.prems obtain j where j: "findIndex P xs = Some j" "i = Suc j" by auto
    from Cons.IH[OF j(1)] j(2) show ?thesis by simp
  qed
qed

lemma deps_ok_update:
  assumes ok: "deps_ok ts" and k: "k < length ts"
    and new: "\<forall>i \<in> set ds. i < length ts \<and> stepNumber (ts ! i) < stepNumber (ts ! k)"
  shows "deps_ok (ts[k := (ts ! k)\<lparr> dependencies := Some ds \<rparr>])"
proof -
  let ?ts = "ts[k := (ts ! k)\<lparr> dependencies := Some ds \<rparr>]"
  have num: "stepNumber (?ts ! i) = stepNumber (ts ! i)" if "i < length ts" for i
    using that by (cases "i = k") simp_all
  have "i < length ?ts \<and> stepNumber (?ts ! i) < stepNumber (?ts ! j)"
    if j: "j < length ?ts" and d: "dependencies (?ts ! j) = Some ds'" and i: "i \<in> set ds'"
    for j ds' i
  proof (cases "j = k")
    case True
    with d k have "ds' = ds" by simp
    with new i have "i < length ts" "stepNumber (ts ! i) < stepNumber (ts ! k)" by auto
    with True k show ?thesis by (simp add: num)
  next
    case False
    with d j have "dependencies (ts ! j) = Some ds'" "j < length ts" by simp_all
    with ok i have "i < length ts" "stepNumber (ts ! i) < stepNumber (ts ! j)"
      unfolding deps_ok_def by blast+
    with j show ?thesis by (simp add: num)
  qed
  then show ?thesis unfolding deps_ok_def by blast
qed

lemma populate_steps_deps:
  assumes "populate_steps sts ts0 = Inr ts"
    and "\<forall>step \<in> set sts. validateStep step = Inr ()"
    and "deps_ok ts0"
  shows "deps_ok ts"
  using assms
proof (induction sts arbitrary: ts0)
  case Nil
  then show ?case by simp
next
  case (Cons step rest)
  show ?case
  proof (cases "dependsOn step")
    case None
    with Cons.prems(1) have "populate_steps rest ts0 = Inr ts" by simp
    from Cons.IH[OF this] Cons.prems(2,3) show ?thesis by simp
  next
    case (Some ds)
    from Cons.prems(2) have "validateStep step = Inr ()" by simp
    then obtain own where own: "WorkflowStep.stepNumber step = Some own"
      and later: "\<not> depends_on_later (dependsOn step) own"
      unfolding validateStep_Inr_iff by blast
    from later Some have small: "\<forall>n \<in> set ds. n < own"
      by (auto simp: list_ex_iff)
    let ?P = "\<lambda>t :: (unit, nat) Task. stepNumber t = the (WorkflowStep.stepNumber step)"
    from Cons.prems(1) Some obtain k where k: "findIndex ?P ts0 = Some k"
      by (cases "findIndex ?P ts0") auto
    from findIndex_SomeD[OF k] own have kl: "k < length ts0" and kn: "stepNumber (ts0 ! k) = own"
      by simp_all
    let ?ds = "filter (\<lambda>j. stepNumber (ts0 ! j) \<in> set ds) [0..<length ts0]"
    let ?ts1 = "ts0[k := (ts0 ! k)\<lparr> dependencies := Some ?ds \<rparr>]"
    have "\<forall>i \<in> set ?ds. i < length ts0 \<and> stepNumber (ts0 ! i) < stepNumber (ts0 ! k)"
      using small kn by auto
    from deps_ok_update[OF Cons.prems(3) kl this] have ok1: "deps_ok ?ts1" .
    from Cons.prems(1) Some k have "populate_steps rest ?ts1 = Inr ts" by simp
    from Cons.IH[OF this _ ok1] Cons.prems(2) show ?thesis by simp
  qed
qed

lemma deps_ok_createTasks: "deps_ok (createTasks d w)"
  by (simp add: deps_ok_def createTasks_def)

lemma consumer_ofD:
  assumes "consumer_of ts i = Some c"
  shows "c < length ts \<and> (\<exists>ds. dependencies (ts ! c) = Some ds \<and> i \<in> set ds)"
proof -
  let ?f = "filter (\<lambda>j. case dependencies (ts ! j) of None \<Rightarrow> False | Some ds \<Rightarrow> i \<in> set ds)
              [0..<length ts]"
  from assms obtain x xs where f: "?f = x # xs" and c: "c = last (x # xs)"
    by (auto simp: consumer_of_def split: list.splits)
  have "last (x # xs) \<in> set (x # xs)" by (rule last_in_set) simp
  with f c have "c \<in> set ?f" by simp
  then show ?thesis by (auto split: option.splits)
qed

lemma graph_ok_inj:
  assumes "graph_ok newId s" "x \<in> set (taskRepository s)" "y \<in> set (taskRepository s)"
    "taskId x = taskId y"
  shows "x = y"
proof -
  from assms(1) have "distinct (map taskId (taskRepository s))"
    by (simp add: graph_ok_def task_skeleton_def skeleton_def comp_def)
  then have "inj_on taskId (set (taskRepository s))" by (simp add: distinct_map)
  with assms(2-4) show ?thesis by (auto dest: inj_onD)
qed

lemma find_SomeD: "find P xs = Some x \<Longrightarrow> P x \<and> x \<in> set xs"
  by (auto simp: find_Some_iff)

lemma load_task_agrees:
  assumes ok: "graph_ok newId s" and r: "r \<in> set (taskRepository s)"
  shows "agrees (load_task s r) (map_option taskId (dependant (load_task s r))) (task_skeleton s)"
    and "\<And>d. dependant (load_task s r) = Some d \<Longrightarrow> agrees d None (task_skeleton s)"
proof -
  have only: "skeleton x = skeleton y"
    if "x \<in> set (taskRepository s)" "y \<in> set (taskRepository s)" "taskId x = taskId y" for x y
    using graph_ok_inj[OF ok that] by simp
  have dep: "dependantFk r = Some (taskId d) \<and> (\<exists>x \<in> set (taskRepository s). d = cols_of x)"
    if "dependant (load_task s r) = Some d" for d
  proof -
    from that obtain k x where k: "dependantFk r = Some k"
      and x: "find (\<lambda>d. taskId d = k) (taskRepository s) = Some x" and d: "d = cols_of x"
      by (auto simp: load_task_def split: option.splits)
    from find_SomeD[OF x] d k show ?thesis by (auto simp: cols_of_def)
  qed
  show "agrees (load_task s r) (map_option taskId (dependant (load_task s r))) (task_skeleton s)"
    unfolding agrees_def
  proof (intro conjI ballI)
    show "\<exists>e \<in> set (task_skeleton s). fst e = taskId (load_task s r)"
      using r by (force simp: task_skeleton_def skeleton_def)
  next
    fix e assume "e \<in> set (task_skeleton s)"
    then obtain x where x: "x \<in> set (taskRepository s)" and e: "e = skeleton x"
      by (auto simp: task_skeleton_def)
    show "case e of (i, w, n, f) \<Rightarrow> i = taskId (load_task s r) \<longrightarrow>
            w = TaskCols.workflowId (load_task s r) \<and> n = stepNumber (load_task s r)
            \<and> (\<forall>k. map_option taskId (dependant (load_task s r)) = Some k \<longrightarrow> f = Some k)"
    proof (cases "taskId x = taskId r")
      case True
      from only[OF x r True] have "skeleton x = skeleton r" .
      then show ?thesis unfolding e using dep by (auto simp: skeleton_def)
    next
      case False
      then show ?thesis unfolding e by (simp add: skeleton_def)
    qed
  qed
  fix d assume "dependant (load_task s r) = Some d"
  from dep[OF this] obtain x where x: "x \<in> set (taskRepository s)" and d: "d = cols_of x"
    by blast
  show "agrees d None (task_skeleton s)"
    unfolding agrees_def
  proof (intro conjI ballI)
    show "\<exists>e \<in> set (task_skeleton s). fst e = taskId d"
      using x d by (force simp: task_skeleton_def skeleton_def cols_of_def)
  next
    fix e assume "e \<in> set (task_skeleton s)"
    then obtain y where y: "y \<in> set (taskRepository s)" and e: "e = skeleton y"
      by (auto simp: task_skeleton_def)
    show "case e of (i, w, n, f) \<Rightarrow> i = taskId d \<longrightarrow>
            w = TaskCols.workflowId d \<and> n = stepNumber d \<and> (\<forall>k. None = Some k \<longrightarrow> f = Some k)"
    proof (cases "taskId y = taskId x")
      case True
      from only[OF y x True] have "skeleton y = skeleton x" .
      then show ?thesis unfolding e d by (auto simp: skeleton_def cols_of_def)
    next
      case False
      then show ?thesis unfolding e d by (simp add: skeleton_def cols_of_def)
    qed
  qed
qed

lemma graph_ok_mono:
  assumes "graph_ok newId s" "task_skeleton s' = task_skeleton s" "generated s \<le> generated s'"
  shows "graph_ok newId s'"
proof -
  have "newId ` {..<generated s} \<subseteq> newId ` {..<generated s'}"
    using assms(3) by (intro image_mono) auto
  with assms(1) show ?thesis
    unfolding graph_ok_def assms(2) by (auto split: prod.splits)
qed

lemma taskWorker_turn_graph_ok:
  assumes "graph_ok newId s"
  shows "graph_ok newId (taskWorker_turn newId jobMap s)"
proof (cases "taskRepository_findOne_queued s")
  case None
  with assms show ?thesis by (simp add: taskWorker_turn_def)
next
  case (Some t)
  from findOne_queued_row[OF Some] obtain r where r: "next_queued s = Some r" and t: "t = load_task s r"
    by blast
  from next_queued_least(1)[OF r] have "r \<in> set (taskRepository s)" .
  note a = load_task_agrees[OF assms this]
  from run_skeleton[of t s newId jobMap] a
  have "task_skeleton (snd (snd (run newId jobMap t s))) = task_skeleton s"
      "generated s \<le> generated (snd (snd (run newId jobMap t s)))"
    unfolding t by blast+
  from graph_ok_mono[OF assms this] Some show ?thesis by (simp add: taskWorker_turn_def)
qed

text \<open>Creating a workflow keeps the invariant.\<close>

lemma graph_ok_append:
  assumes inj: "inj newId" and ok: "graph_ok newId s"
    and sk: "task_skeleton s' = task_skeleton s @
               map (\<lambda>i. (newId (g0 + i), w, num i, map_option (\<lambda>c. newId (g0 + c)) (cons i))) [0..<n]"
    and g0: "generated s \<le> g0" and g': "generated s' = g0 + n"
    and cons: "\<And>i c. i < n \<Longrightarrow> cons i = Some c \<Longrightarrow> c < n \<and> num i < num c"
  shows "graph_ok newId s'"
proof -
  let ?F = "\<lambda>i. (newId (g0 + i), w, num i, map_option (\<lambda>c. newId (g0 + c)) (cons i))"
  let ?old = "set (task_skeleton s)"
  note inv = ok[unfolded graph_ok_def]
  from inv have d: "distinct (map fst (task_skeleton s))" by (rule conjunct1)
  have keys: "i \<in> newId ` {..<generated s} \<and> (\<forall>k. f = Some k \<longrightarrow> k \<in> newId ` {..<generated s})"
    if "(i, w', m, f) \<in> ?old" for i w' m f
    using bspec[OF inv[THEN conjunct2, THEN conjunct1] that] by simp
  have edges: "w1 = w2 \<and> m1 < m2"
    if "(i1, w1, m1, f1) \<in> ?old" "(i2, w2, m2, f2) \<in> ?old" "f1 = Some i2"
    for i1 w1 m1 f1 i2 w2 m2 f2
  proof -
    from bspec[OF inv[THEN conjunct2, THEN conjunct2] that(1)]
    have "\<forall>e' \<in> ?old. case e' of (i', w', n', f') \<Rightarrow> f1 = Some i' \<longrightarrow> w1 = w' \<and> m1 < n'"
      by simp
    from bspec[OF this that(2)] that(3) show ?thesis by simp
  qed
  have fresh: "newId (g0 + i) \<notin> newId ` {..<generated s}" for i
  proof
    assume "newId (g0 + i) \<in> newId ` {..<generated s}"
    then obtain j where "j < generated s" "newId (g0 + i) = newId j" by auto
    with inj have "g0 + i = j" by (auto dest: injD)
    with \<open>j < generated s\<close> g0 show False by simp
  qed
  have set': "set (task_skeleton s') = ?old \<union> ?F ` {..<n}"
    unfolding sk by (auto simp: atLeast0LessThan)
  have sub: "newId ` {..<generated s} \<subseteq> newId ` {..<generated s'}"
    using g0 g' by (intro image_mono) auto
  have c1: "distinct (map fst (task_skeleton s'))"
  proof -
    have "map fst (map ?F [0..<n]) = map (\<lambda>i. newId (g0 + i)) [0..<n]" by simp
    moreover have "distinct (map (\<lambda>i. newId (g0 + i)) [0..<n])"
    proof -
      have "inj_on (\<lambda>i. newId (g0 + i)) (set [0..<n])"
      proof (rule inj_onI)
        fix x y assume "newId (g0 + x) = newId (g0 + y)"
        with inj have "g0 + x = g0 + y" by (rule injD)
        then show "x = y" by simp
      qed
      then show ?thesis by (simp add: distinct_map)
    qed
    moreover have "set (map fst (task_skeleton s)) \<inter> set (map (\<lambda>i. newId (g0 + i)) [0..<n]) = {}"
    proof -
      have "x \<notin> set (map (\<lambda>i. newId (g0 + i)) [0..<n])" if "x \<in> set (map fst (task_skeleton s))" for x
      proof -
        from that obtain i w' m f where "(i, w', m, f) \<in> ?old" "x = i" by force
        with keys have x: "x \<in> newId ` {..<generated s}" by blast
        show ?thesis
        proof
          assume "x \<in> set (map (\<lambda>i. newId (g0 + i)) [0..<n])"
          then obtain j where "x = newId (g0 + j)" by auto
          with x fresh[of j] show False by simp
        qed
      qed
      then show ?thesis by blast
    qed
    ultimately show ?thesis unfolding sk using d by (simp add: comp_def)
  qed
  have c2: "i \<in> newId ` {..<generated s'} \<and> (\<forall>k. f = Some k \<longrightarrow> k \<in> newId ` {..<generated s'})"
    if "(i, w', m, f) \<in> set (task_skeleton s')" for i w' m f
  proof -
    from that consider "(i, w', m, f) \<in> ?old" | j where "j < n" "(i, w', m, f) = ?F j"
      unfolding set' by auto
    then show ?thesis
    proof cases
      case 1
      from keys[OF this] sub show ?thesis by blast
    next
      case 2
      then have i: "i = newId (g0 + j)" and f: "f = map_option (\<lambda>c. newId (g0 + c)) (cons j)"
        by simp_all
      have "i \<in> newId ` {..<generated s'}" unfolding i g' using 2(1) by simp
      moreover have "k \<in> newId ` {..<generated s'}" if "f = Some k" for k
      proof -
        from that f obtain c where c: "cons j = Some c" "k = newId (g0 + c)" by auto
        from cons[OF 2(1) c(1)] have "c < n" by simp
        then show ?thesis unfolding c(2) g' by simp
      qed
      ultimately show ?thesis by blast
    qed
  qed
  have c3: "w1 = w2 \<and> m1 < m2"
    if a: "(i1, w1, m1, f1) \<in> set (task_skeleton s')" and b: "(i2, w2, m2, f2) \<in> set (task_skeleton s')"
      and f: "f1 = Some i2" for i1 w1 m1 f1 i2 w2 m2 f2
  proof -
    from a consider (old) "(i1, w1, m1, f1) \<in> ?old" | (new) j where "j < n" "(i1, w1, m1, f1) = ?F j"
      unfolding set' by auto
    then show ?thesis
    proof cases
      case old
      from keys[OF old] f have i2: "i2 \<in> newId ` {..<generated s}" by simp
      from b consider "(i2, w2, m2, f2) \<in> ?old" | j where "j < n" "(i2, w2, m2, f2) = ?F j"
        unfolding set' by auto
      then show ?thesis
      proof cases
        case 1
        from edges[OF old 1 f] show ?thesis .
      next
        case 2
        then have "i2 = newId (g0 + j)" by simp
        with i2 fresh[of j] show ?thesis by simp
      qed
    next
      case new
      then have w1: "w1 = w" and m1: "m1 = num j" and f1: "f1 = map_option (\<lambda>c. newId (g0 + c)) (cons j)"
        by simp_all
      from f f1 obtain c where c: "cons j = Some c" "i2 = newId (g0 + c)" by auto
      from cons[OF new(1) c(1)] have cn: "c < n" "num j < num c" by simp_all
      from b consider "(i2, w2, m2, f2) \<in> ?old" | j' where "j' < n" "(i2, w2, m2, f2) = ?F j'"
        unfolding set' by auto
      then show ?thesis
      proof cases
        case 1
        from keys[OF 1] have "i2 \<in> newId ` {..<generated s}" by simp
        with c(2) fresh[of c] show ?thesis by simp
      next
        case 2
        then have "i2 = newId (g0 + j')" "w2 = w" "m2 = num j'" by simp_all
        with c(2) inj have "j' = c" by (auto dest: injD)
        with \<open>w2 = w\<close> \<open>m2 = num j'\<close> w1 m1 cn show ?thesis by simp
      qed
    qed
  qed
  have k2: "\<forall>e \<in> set (task_skeleton s'). case e of (i, w, n, f) \<Rightarrow>
            i \<in> newId ` {..<generated s'} \<and> (\<forall>k. f = Some k \<longrightarrow> k \<in> newId ` {..<generated s'})"
  proof (rule ballI)
    fix e assume e: "e \<in> set (task_skeleton s')"
    obtain i w' m f where "e = (i, w', m, f)" by (cases e)
    with c2[of i w' m f] e show "case e of (i, w, n, f) \<Rightarrow>
            i \<in> newId ` {..<generated s'} \<and> (\<forall>k. f = Some k \<longrightarrow> k \<in> newId ` {..<generated s'})"
      by simp
  qed
  have k3: "\<forall>e \<in> set (task_skeleton s'). case e of (i, w, n, f) \<Rightarrow>
            \<forall>e' \<in> set (task_skeleton s'). case e' of (i', w', n', f') \<Rightarrow>
            f = Some i' \<longrightarrow> w = w' \<and> n < n'"
  proof (rule ballI)
    fix e assume e: "e \<in> set (task_skeleton s')"
    obtain i1 w1 m1 f1 where e1: "e = (i1, w1, m1, f1)" by (cases e)
    have "\<forall>e' \<in> set (task_skeleton s'). case e' of (i', w', n', f') \<Rightarrow>
            f1 = Some i' \<longrightarrow> w1 = w' \<and> m1 < n'"
    proof (rule ballI)
      fix e' assume e': "e' \<in> set (task_skeleton s')"
      obtain i2 w2 m2 f2 where e2: "e' = (i2, w2, m2, f2)" by (cases e')
      from e e' e1 e2 have "(i1, w1, m1, f1) \<in> set (task_skeleton s')"
          "(i2, w2, m2, f2) \<in> set (task_skeleton s')" by simp_all
      from c3[OF this] have "f1 = Some i2 \<longrightarrow> w1 = w2 \<and> m1 < m2" by blast
      then show "case e' of (i', w', n', f') \<Rightarrow> f1 = Some i' \<longrightarrow> w1 = w' \<and> m1 < n'"
        unfolding e2 by simp
    qed
    then show "case e of (i, w, n, f) \<Rightarrow>
            \<forall>e' \<in> set (task_skeleton s'). case e' of (i', w', n', f') \<Rightarrow>
            f = Some i' \<longrightarrow> w = w' \<and> n < n'"
      unfolding e1 by simp
  qed
  from c1 k2 k3 show ?thesis unfolding graph_ok_def by (intro conjI)
qed

lemma taskRepository_save_all_skeleton:
  assumes "\<And>i. i < length ts \<Longrightarrow> dependant (ts ! i) = None \<and> TaskCols.workflowId (ts ! i) = w"
  shows "task_skeleton (taskRepository_save_all newId ts s) = task_skeleton s @
      map (\<lambda>i. (newId (generated s + i), w, stepNumber (ts ! i),
                 map_option (\<lambda>c. newId (generated s + c)) (consumer_of ts i))) [0..<length ts]"
    and "generated (taskRepository_save_all newId ts s) = generated s + length ts"
proof -
  let ?row = "\<lambda>i. skeleton
            \<lparr> taskId = newId (generated s + i), clientId = TaskCols.clientId (ts ! i),
              status = TaskCols.status (ts ! i), workflowId = TaskCols.workflowId (ts ! i),
              progress = progress (ts ! i), taskType = taskType (ts ! i),
              stepNumber = stepNumber (ts ! i),
              workflowFk = map_option WorkflowCols.workflowId (Task.workflow (ts ! i)),
              dependantFk =
                (case consumer_of ts i of
                   Some c \<Rightarrow> Some (newId (generated s + c))
                 | None \<Rightarrow> map_option taskId (dependant (ts ! i))) \<rparr>"
  have "?row i = (newId (generated s + i), w, stepNumber (ts ! i),
                 map_option (\<lambda>c. newId (generated s + c)) (consumer_of ts i))"
    if "i < length ts" for i
    using assms[OF that] by (cases "consumer_of ts i") (simp_all add: skeleton_def)
  then have "map ?row [0..<length ts] =
      map (\<lambda>i. (newId (generated s + i), w, stepNumber (ts ! i),
                 map_option (\<lambda>c. newId (generated s + c)) (consumer_of ts i))) [0..<length ts]"
    by (intro map_cong) simp_all
  then show "task_skeleton (taskRepository_save_all newId ts s) = task_skeleton s @
      map (\<lambda>i. (newId (generated s + i), w, stepNumber (ts ! i),
                 map_option (\<lambda>c. newId (generated s + c)) (consumer_of ts i))) [0..<length ts]"
    by (simp add: taskRepository_save_all_def task_skeleton_def Let_def comp_def)
  show "generated (taskRepository_save_all newId ts s) = generated s + length ts"
    by (simp add: taskRepository_save_all_def Let_def)
qed

lemma createWorkflowFromYAML_graph_ok:
  assumes inj: "inj newId" and ok: "graph_ok newId s"
  shows "graph_ok newId (snd (createWorkflowFromYAML newId document cid inp s))"
proof (cases "validateWorkflowDefinition (parseWorkflowDefinition document)")
  case (Inl e)
  then show ?thesis using ok by (simp add: createWorkflowFromYAML_def Let_def)
next
  case (Inr u)
  let ?d = "parseWorkflowDefinition document"
  let ?w = "saved_workflow newId cid inp s"
  let ?s1 = "s\<lparr> workflowRepository := workflowRepository s @ [?w], generated := generated s + 1 \<rparr>"
  from Inr have v: "validateWorkflowDefinition ?d = Inr ()" by simp
  from createWorkflowFromYAML_valid[OF v, of newId cid inp s] obtain ts where
    pop: "populateDependencies ?d (createTasks ?d ?w) = Inr ts"
    and er: "erase ts = erase (createTasks ?d ?w)"
    and eq: "createWorkflowFromYAML newId document cid inp s =
               (Inr ?w, taskRepository_save_all newId ts ?s1)"
    by blast
  have len: "length ts = length (createTasks ?d ?w)" using er by (rule erase_length)
  have cols: "dependant (ts ! i) = None \<and> TaskCols.workflowId (ts ! i) = newId (generated s)"
    if "i < length ts" for i
  proof -
    from that len have i: "i < length (createTasks ?d ?w)" by simp
    then have "i < length (steps ?d)" by (simp add: createTasks_def)
    then have "dependant (createTasks ?d ?w ! i) = None"
        "TaskCols.workflowId (createTasks ?d ?w ! i) = newId (generated s)"
      by (simp_all add: createTasks_def saved_workflow_def)
    with erase_cols(3,8)[OF er i] show ?thesis by simp
  qed
  from v have steps: "\<forall>step \<in> set (steps ?d). validateStep step = Inr ()"
    by (simp add: validate_Inr_iff)
  from populate_steps_deps[OF pop[unfolded populateDependencies_def] steps deps_ok_createTasks]
  have dok: "deps_ok ts" .
  have cons: "c < length ts \<and> stepNumber (ts ! i) < stepNumber (ts ! c)"
    if "i < length ts" "consumer_of ts i = Some c" for i c
  proof -
    from consumer_ofD[OF that(2)] obtain ds where c: "c < length ts"
      and ds: "dependencies (ts ! c) = Some ds" "i \<in> set ds" by blast
    with dok show ?thesis unfolding deps_ok_def by blast
  qed
  have sk: "task_skeleton (taskRepository_save_all newId ts ?s1) = task_skeleton s @
      map (\<lambda>i. (newId (generated s + 1 + i), newId (generated s), stepNumber (ts ! i),
                 map_option (\<lambda>c. newId (generated s + 1 + c)) (consumer_of ts i))) [0..<length ts]"
    using taskRepository_save_all_skeleton(1)[of ts "newId (generated s)" newId ?s1, OF cols]
    by (simp add: task_skeleton_def)
  have g: "generated (taskRepository_save_all newId ts ?s1) = generated s + 1 + length ts"
    using taskRepository_save_all_skeleton(2)[of ts "newId (generated s)" newId ?s1, OF cols]
    by simp
  have "graph_ok newId (taskRepository_save_all newId ts ?s1)"
    by (rule graph_ok_append[OF inj ok sk _ g cons]) simp_all
  then show ?thesis unfolding eq by simp
qed

lemma empty_store_graph_ok: "graph_ok newId empty_store"
  by (simp add: graph_ok_def task_skeleton_def empty_store_def)

lemma reachable_graph_ok:
  assumes "inj newId" "reachable newId jobMap s"
  shows "graph_ok newId s"
  using assms(2)
proof (induction rule: reachable.induct)
  case start
  show ?case by (rule empty_store_graph_ok)
next
  case (create s document cid inp)
  from createWorkflowFromYAML_graph_ok[OF assms(1) create.IH] show ?case .
next
  case (turn s)
  from taskWorker_turn_graph_ok[OF turn.IH] show ?case .
qed


lemma example_key_length: "length (example_key n) = Suc n"
  by (induction n) simp_all

lemma example_key_inj: "inj example_key"
proof (rule injI)
  fix x y assume "example_key x = example_key y"
  then have "length (example_key x) = length (example_key y)" by simp
  then show "x = y" by (simp add: example_key_length)
qed


text \<open>
  In a document that passes the validation, a step refers to the step numbers of other
  steps only when they are below its own.
\<close>

lemma upstream_steps_smaller:
  assumes ok: "validateWorkflowDefinition (parseWorkflowDefinition document) = Inr ()"
    and step: "step \<in> set (steps document)" "WorkflowStep.stepNumber step = Some own"
    and n: "n \<in> set (referenced_steps (dependsOn step))"
    and up: "upstream \<in> set (steps document)" "WorkflowStep.stepNumber upstream = Some n"
  shows "n < own"
proof (rule ccontr)
  assume "\<not> n < own"
  then have le: "own \<le> n" by simp
  show False
  proof (cases "dependsOn step = SingleStep 0")
    case True
    with n have "n = 0" by simp
    let ?p = "\<lparr> WorkflowStep.taskType = WorkflowStep.taskType upstream,
                WorkflowStep.stepNumber = WorkflowStep.stepNumber upstream,
                dependsOn = castDependsOn (dependsOn upstream) \<rparr>"
    have "?p \<in> set (steps (parseWorkflowDefinition document))"
      using up(1) by (auto simp: parseWorkflowDefinition_def)
    with ok have "validateStep ?p = Inr ()" unfolding validate_Inr_iff by blast
    with up(2) \<open>n = 0\<close> show False by (simp add: validateStep_Inr_iff)
  next
    case False
    from later_reference_rejected[OF step n le False] ok show False by auto
  qed
qed

text \<open>
  Claim C9. In every state the system reaches through creations of workflows and turns
  of the worker, with keys that are never handed out twice, when the worker's query
  selects a task (the \<open>Queued\<close> task that is first by workflow identifier, then by step
  number), then every task whose consumer is the selected task belongs to the same
  workflow, has a smaller step number and is not \<open>Queued\<close>; and no task of the selected
  task's workflow with a smaller step number is \<open>Queued\<close>. The steps a step depends on
  have smaller step numbers in every definition that passes the validation
  (\<open>upstream_steps_smaller\<close>), so the second part covers every upstream task, also one
  whose consumer in the table is another task. In the two-step graph, after the first turn
  has completed step 1, the query selects step 2.
\<close>

theorem selected_task_upstream_drained:
  assumes "inj newId" "reachable newId jobMap s" "taskRepository_findOne_queued s = Some t"
  shows "(\<forall>u \<in> set (taskRepository s). dependantFk u = Some (taskId t) \<longrightarrow>
            TaskCols.workflowId u = TaskCols.workflowId t \<and> stepNumber u < stepNumber t
            \<and> TaskCols.status u \<noteq> Queued)
       \<and> (\<forall>u \<in> set (taskRepository s).
            TaskCols.workflowId u = TaskCols.workflowId t \<and> stepNumber u < stepNumber t
              \<longrightarrow> TaskCols.status u \<noteq> Queued)"
proof -
  from findOne_queued_row[OF assms(3)] obtain r where r: "next_queued s = Some r"
    and t: "t = load_task s r" by blast
  note least = next_queued_least[OF r]
  from reachable_graph_ok[OF assms(1,2)] have ok: "graph_ok newId s" .
  have drained: "TaskCols.status u \<noteq> Queued"
    if "u \<in> set (taskRepository s)" "TaskCols.workflowId u = TaskCols.workflowId r"
      "stepNumber u < stepNumber r" for u
  proof
    assume "TaskCols.status u = Queued"
    from least(3)[OF that(1) this] that(2,3) show False by (simp add: task_before_def)
  qed
  have edge: "TaskCols.workflowId u = TaskCols.workflowId r \<and> stepNumber u < stepNumber r"
    if u: "u \<in> set (taskRepository s)" and f: "dependantFk u = Some (taskId r)" for u
  proof -
    from u have a: "skeleton u \<in> set (task_skeleton s)" by (simp add: task_skeleton_def)
    from least(1) have b: "skeleton r \<in> set (task_skeleton s)" by (simp add: task_skeleton_def)
    note inv = ok[unfolded graph_ok_def, THEN conjunct2, THEN conjunct2]
    from bspec[OF inv a]
    have "\<forall>e' \<in> set (task_skeleton s). case e' of (i', w', n', f') \<Rightarrow>
            dependantFk u = Some i' \<longrightarrow> TaskCols.workflowId u = w' \<and> stepNumber u < n'"
      by (simp add: skeleton_def)
    from bspec[OF this b] f show ?thesis by (simp add: skeleton_def)
  qed
  show ?thesis unfolding t using drained edge by simp
qed

theorem selected_task_upstream_drained_witness:
  "inj example_key
   \<and> reachable example_key (example_jobs (resolves_with (Some (JStr ''X''))) (resolves_with None))
       completed_step_store
   \<and> map (\<lambda>u. (taskId u, TaskCols.workflowId u, stepNumber u, dependantFk u, TaskCols.status u))
       (taskRepository completed_step_store)
       = [(''kk'', ''k'', 1, Some ''kkk'', TaskStatus.Completed), (''kkk'', ''k'', 2, None, Queued)]
   \<and> map_option taskId (taskRepository_findOne_queued completed_step_store) = Some ''kkk''
   \<and> list_all (\<lambda>u. TaskCols.workflowId u = ''k'' \<and> stepNumber u < 2 \<and> TaskCols.status u \<noteq> Queued)
        (filter (\<lambda>u. dependantFk u = Some ''kkk'') (taskRepository completed_step_store))
   \<and> list_all (\<lambda>u. TaskCols.status u \<noteq> Queued)
        (filter (\<lambda>u. TaskCols.workflowId u = ''k'' \<and> stepNumber u < 2)
           (taskRepository completed_step_store))"
proof -
  let ?jobs = "example_jobs (resolves_with (Some (JStr ''X''))) (resolves_with None)"
  have "reachable example_key ?jobs empty_store" by (rule reachable.start)
  then have "reachable example_key ?jobs two_step_store"
    unfolding two_step_store_def by (rule reachable.create)
  then have r: "reachable example_key ?jobs completed_step_store"
    unfolding completed_step_store_def by (rule reachable.turn)
  have rows: "map (\<lambda>u. (taskId u, TaskCols.workflowId u, stepNumber u, dependantFk u, TaskCols.status u))
       (taskRepository completed_step_store)
       = [(''kk'', ''k'', 1, Some ''kkk'', TaskStatus.Completed), (''kkk'', ''k'', 2, None, Queued)]"
    by code_simp
  have sel: "map_option (\<lambda>t. (taskId t, TaskCols.workflowId t, stepNumber t))
       (taskRepository_findOne_queued completed_step_store) = Some (''kkk'', ''k'', 2)"
    by code_simp
  then obtain t where t: "taskRepository_findOne_queued completed_step_store = Some t"
    and cols: "taskId t = ''kkk''" "TaskCols.workflowId t = ''k''" "stepNumber t = 2"
    by auto
  from t cols have sel': "map_option taskId (taskRepository_findOne_queued completed_step_store) = Some ''kkk''"
    by simp
  note th = selected_task_upstream_drained[OF example_key_inj r t, unfolded cols]
  from th[THEN conjunct1]
  have a: "list_all (\<lambda>u. TaskCols.workflowId u = ''k'' \<and> stepNumber u < 2 \<and> TaskCols.status u \<noteq> Queued)
        (filter (\<lambda>u. dependantFk u = Some ''kkk'') (taskRepository completed_step_store))"
    by (simp add: list_all_iff)
  from th[THEN conjunct2]
  have b: "list_all (\<lambda>u. TaskCols.status u \<noteq> Queued)
        (filter (\<lambda>u. TaskCols.workflowId u = ''k'' \<and> stepNumber u < 2)
           (taskRepository completed_step_store))"
    by (simp add: list_all_iff)
  from example_key_inj r rows sel' a b show ?thesis by (intro conjI)
qed

subsection \<open>The status route\<close>

text \<open>
  Claim C10. For a workflow the repository holds, the status route answers with the
  workflow's status, with the number of its tasks as the total, and as the completed
  tasks the number of its tasks whose status is \<open>Completed\<close>, \<open>Failed\<close> or \<open>Skipped\<close>.
  After the failing run of the two-step graph (one task \<open>Failed\<close>, its consumer
  \<open>Skipped\<close>) it reports 2 completed tasks of 2.
\<close>

theorem get_status_counts_terminal_tasks:
  assumes "find (\<lambda>w. WorkflowCols.workflowId w = wid) (workflowRepository s) = Some w"
  shows "get_status s wid =
     (Ok, Status \<lparr> StatusBody.workflowId = WorkflowCols.workflowId w,
                   StatusBody.status = WorkflowCols.status w,
                   completedTasks =
                     length (filter (\<lambda>r. workflowFk r = Some wid \<and>
                                TaskCols.status r \<in> {TaskStatus.Completed, TaskStatus.Failed, Skipped})
                               (taskRepository s)),
                   totalTasks = length (filter (\<lambda>r. workflowFk r = Some wid) (taskRepository s)) \<rparr>)"
  using assms
  by (simp add: get_status_def workflowRepository_findOne_def isCompleted_def comp_def)

theorem get_status_counts_terminal_tasks_witness:
  "map TaskCols.status (taskRepository failed_step_store) = [TaskStatus.Failed, Skipped]
   \<and> get_status failed_step_store ''k'' =
       (Ok, Status \<lparr> StatusBody.workflowId = ''k'', StatusBody.status = Initial,
                     completedTasks = 2, totalTasks = 2 \<rparr>)"
proof -
  have f: "find (\<lambda>w. WorkflowCols.workflowId w = ''k'') (workflowRepository failed_step_store)
      = Some \<lparr> WorkflowCols.workflowId = ''k'', WorkflowCols.clientId = ''client'',
               WorkflowCols.status = Initial, finalResult = None, input = ''{}'' \<rparr>"
    by code_simp
  have n: "length (filter (\<lambda>r. workflowFk r = Some ''k'' \<and>
                TaskCols.status r \<in> {TaskStatus.Completed, TaskStatus.Failed, Skipped})
             (taskRepository failed_step_store)) = 2"
      "length (filter (\<lambda>r. workflowFk r = Some ''k'') (taskRepository failed_step_store)) = 2"
    by code_simp+
  have st: "map TaskCols.status (taskRepository failed_step_store) = [TaskStatus.Failed, Skipped]"
    by code_simp
  from get_status_counts_terminal_tasks[OF f] n st show ?thesis by simp
qed

end
